theory Spec2Isabelle
  imports Complex_Main "HOL-Library.AList" "HOL-Library.Code_Target_Nat"
begin

section \<open>Python values used by performance-test.py\<close>

text \<open>
  Strings are lists of characters; a character is one of the code points U+0000 to
  U+00FF. The character classes below are the ones Python uses on that range:
  \<^verbatim>\<open>str.isspace\<close> (also used by \<^verbatim>\<open>str.split()\<close>, \<^verbatim>\<open>str.strip()\<close> and the regular
  expression class \<^verbatim>\<open>\s\<close>), the decimal digits (regular expression class \<^verbatim>\<open>\d\<close>), and
  the smaller whitespace set that \<^verbatim>\<open>float()\<close> removes around its argument.
\<close>

datatype py_error = IndexError | KeyError | ValueError | OSError | TimeoutExpired

definition is_digit :: "char \<Rightarrow> bool" where
  "is_digit c \<longleftrightarrow> c \<in> set ''0123456789''"

definition digit_val :: "char \<Rightarrow> nat" where
  "digit_val c = of_char c - 48"

definition is_space :: "char \<Rightarrow> bool" where
  "is_space c \<longleftrightarrow> c \<in> set [CHR 0x09, CHR 0x0A, CHR 0x0B, CHR 0x0C, CHR 0x0D,
      CHR 0x1C, CHR 0x1D, CHR 0x1E, CHR 0x1F, CHR 0x20, CHR 0x85, CHR 0xA0]"

definition float_space :: "char \<Rightarrow> bool" where
  "float_space c \<longleftrightarrow> c \<in> set [CHR 0x09, CHR 0x0A, CHR 0x0B, CHR 0x0C, CHR 0x0D,
      CHR 0x20, CHR 0x85, CHR 0xA0]"

definition lower_char :: "char \<Rightarrow> char" where
  "lower_char c =
     (let n = (of_char c :: nat)
      in if (65 \<le> n \<and> n \<le> 90) \<or> (192 \<le> n \<and> n \<le> 222 \<and> n \<noteq> 215)
         then char_of (n + 32) else c)"

definition py_lower :: "string \<Rightarrow> string" where
  "py_lower s = map lower_char s"

definition py_strip :: "string \<Rightarrow> string" where
  "py_strip s = rev (dropWhile is_space (rev (dropWhile is_space s)))"

text \<open>\<^verbatim>\<open>sub in s\<close>: \<open>sub\<close> occurs in \<open>s\<close> as a contiguous substring.\<close>

fun py_in :: "string \<Rightarrow> string \<Rightarrow> bool" where
  "py_in sub [] = (sub = [])"
| "py_in sub (c # cs) = (take (length sub) (c # cs) = sub \<or> py_in sub cs)"

text \<open>\<^verbatim>\<open>s.split(sep)\<close> for a one-character separator: never the empty list.\<close>

fun py_split_on :: "char \<Rightarrow> string \<Rightarrow> string list" where
  "py_split_on sep [] = [[]]"
| "py_split_on sep (c # cs) =
     (if c = sep then [] # py_split_on sep cs
      else (case py_split_on sep cs of
              [] \<Rightarrow> [[c]]
            | w # ws \<Rightarrow> (c # w) # ws))"

text \<open>\<^verbatim>\<open>s.split()\<close>: the maximal runs of non-whitespace characters; \<open>w\<close> is the
  current run, reversed.\<close>

fun split_ws_from :: "string \<Rightarrow> string \<Rightarrow> string list" where
  "split_ws_from w [] = (if w = [] then [] else [rev w])"
| "split_ws_from w (c # cs) =
     (if is_space c
      then (if w = [] then split_ws_from [] cs else rev w # split_ws_from [] cs)
      else split_ws_from (c # w) cs)"

definition py_split_ws :: "string \<Rightarrow> string list" where
  "py_split_ws s = split_ws_from [] s"

text \<open>\<^verbatim>\<open>xs[i]\<close>: a negative index counts from the end, an index out of range raises.\<close>

definition py_index :: "'a list \<Rightarrow> int \<Rightarrow> py_error + 'a" where
  "py_index xs i =
     (if 0 \<le> i \<and> i < int (length xs) then Inr (xs ! nat i)
      else if i < 0 \<and> - int (length xs) \<le> i then Inr (xs ! nat (int (length xs) + i))
      else Inl IndexError)"

definition py_getitem :: "('k \<times> 'v) list \<Rightarrow> 'k \<Rightarrow> py_error + 'v" where
  "py_getitem d k = (case map_of d k of None \<Rightarrow> Inl KeyError | Some v \<Rightarrow> Inr v)"

subsection \<open>Floating-point values\<close>

text \<open>
  A Python float is an IEEE 754 binary64 number: a finite value, written here as the
  rational it denotes, or one of the three special values. The two zeros are one value,
  which no comparison in the script tells apart. \<open>to_double\<close> rounds a rational to the
  nearest double, ties to the even significand: the significand has 53 bits, the
  exponent of its last bit is at least -1074 (gradual underflow), and a result of
  magnitude \<open>2 ^ 1024\<close> or more is an infinity. Both \<^verbatim>\<open>float(s)\<close> and the product of two
  floats are correctly rounded in this way.
\<close>

datatype pyfloat = Fin rat | PInf | NInf | NaN

definition pow2 :: "int \<Rightarrow> rat" where
  "pow2 k = (if 0 \<le> k then 2 ^ nat k else 1 / 2 ^ nat (- k))"

text \<open>\<open>floor_log2 n\<close> is the position of the leading bit of \<open>n\<close>, and \<open>rat_floor_log2 x\<close>
  the integer \<open>k\<close> with \<open>2 ^ k \<le> x < 2 ^ (k + 1)\<close>, for positive \<open>x\<close>.\<close>

fun floor_log2 :: "nat \<Rightarrow> nat" where
  "floor_log2 n = (if n < 2 then 0 else Suc (floor_log2 (n div 2)))"

declare floor_log2.simps [simp del]

definition rat_floor_log2 :: "rat \<Rightarrow> int" where
  "rat_floor_log2 x =
     (if 1 \<le> x then int (floor_log2 (nat \<lfloor>x\<rfloor>))
      else if x = pow2 (- int (floor_log2 (nat \<lfloor>1 / x\<rfloor>)))
           then - int (floor_log2 (nat \<lfloor>1 / x\<rfloor>))
           else - int (floor_log2 (nat \<lfloor>1 / x\<rfloor>)) - 1)"

definition round_half_even :: "rat \<Rightarrow> int" where
  "round_half_even x =
     (if x - of_int \<lfloor>x\<rfloor> < 1 / 2 then \<lfloor>x\<rfloor>
      else if 1 / 2 < x - of_int \<lfloor>x\<rfloor> then \<lfloor>x\<rfloor> + 1
      else if even \<lfloor>x\<rfloor> then \<lfloor>x\<rfloor> else \<lfloor>x\<rfloor> + 1)"

text \<open>The exponent of the last bit of the double nearest to \<open>x\<close>.\<close>

definition double_exponent :: "rat \<Rightarrow> int" where
  "double_exponent x = max (rat_floor_log2 \<bar>x\<bar> - 52) (- 1074)"

definition to_double :: "rat \<Rightarrow> pyfloat" where
  "to_double x =
     (if x = 0 then Fin 0
      else if pow2 1024 \<le>
                of_int (round_half_even (\<bar>x\<bar> / pow2 (double_exponent x))) *
                pow2 (double_exponent x)
      then (if 0 < x then PInf else NInf)
      else Fin (sgn x * of_int (round_half_even (\<bar>x\<bar> / pow2 (double_exponent x))) *
                pow2 (double_exponent x)))"

fun pf_neg :: "pyfloat \<Rightarrow> pyfloat" where
  "pf_neg (Fin q) = Fin (- q)"
| "pf_neg PInf = NInf"
| "pf_neg NInf = PInf"
| "pf_neg NaN = NaN"

fun pf_sign_inf :: "rat \<Rightarrow> pyfloat" where
  "pf_sign_inf q = (if q = 0 then NaN else if 0 < q then PInf else NInf)"

fun pf_mult :: "pyfloat \<Rightarrow> pyfloat \<Rightarrow> pyfloat" where
  "pf_mult (Fin a) (Fin b) = to_double (a * b)"
| "pf_mult NaN _ = NaN"
| "pf_mult _ NaN = NaN"
| "pf_mult PInf (Fin b) = pf_sign_inf b"
| "pf_mult NInf (Fin b) = pf_sign_inf (- b)"
| "pf_mult (Fin a) PInf = pf_sign_inf a"
| "pf_mult (Fin a) NInf = pf_sign_inf (- a)"
| "pf_mult PInf PInf = PInf"
| "pf_mult NInf NInf = PInf"
| "pf_mult PInf NInf = NInf"
| "pf_mult NInf PInf = NInf"

text \<open>The comparison \<^verbatim>\<open>v >= 0\<close>.\<close>

fun pf_nonneg :: "pyfloat \<Rightarrow> bool" where
  "pf_nonneg (Fin q) = (0 \<le> q)"
| "pf_nonneg PInf = True"
| "pf_nonneg NInf = False"
| "pf_nonneg NaN = False"

subsection \<open>The built-in float() on strings\<close>

text \<open>
  \<^verbatim>\<open>float(s)\<close> removes surrounding whitespace, checks that every underscore stands
  between two digits and drops the underscores, reads an optional sign, and then either
  one of the words inf, infinity, nan (in any case) or digits with an optional point and
  an optional exponent, whose decimal value it rounds to the nearest double. Anything
  else raises ValueError.
\<close>

definition float_strip :: "string \<Rightarrow> string" where
  "float_strip s = rev (dropWhile float_space (rev (dropWhile float_space s)))"

fun underscores_ok :: "char \<Rightarrow> string \<Rightarrow> bool" where
  "underscores_ok prev [] = (prev \<noteq> CHR ''_'')"
| "underscores_ok prev (c # cs) =
     ((if c = CHR ''_'' then is_digit prev
       else if prev = CHR ''_'' then is_digit c else True)
      \<and> underscores_ok c cs)"

definition nat_of_digits :: "string \<Rightarrow> nat" where
  "nat_of_digits ds = foldl (\<lambda>a c. 10 * a + digit_val c) 0 ds"

definition scale10 :: "rat \<Rightarrow> int \<Rightarrow> rat" where
  "scale10 q k = (if 0 \<le> k then q * 10 ^ nat k else q / 10 ^ nat (- k))"

definition float_exponent :: "string \<Rightarrow> int option" where
  "float_exponent r =
     (case r of
        [] \<Rightarrow> Some 0
      | e # r' \<Rightarrow>
          if e = CHR ''e'' \<or> e = CHR ''E'' then
            (let neg = (case r' of [] \<Rightarrow> False | s # _ \<Rightarrow> s = CHR ''-'');
                 ds = (case r' of [] \<Rightarrow> []
                       | s # d \<Rightarrow> if s = CHR ''-'' \<or> s = CHR ''+'' then d else r')
             in if ds \<noteq> [] \<and> list_all is_digit ds
                then Some (if neg then - int (nat_of_digits ds) else int (nat_of_digits ds))
                else None)
          else None)"

definition float_unsigned :: "string \<Rightarrow> pyfloat option" where
  "float_unsigned u =
     (if py_lower u = ''inf'' \<or> py_lower u = ''infinity'' then Some PInf
      else if py_lower u = ''nan'' then Some NaN
      else
        (let ip = takeWhile is_digit u;
             r1 = dropWhile is_digit u;
             fp = (case r1 of [] \<Rightarrow> []
                   | p # r \<Rightarrow> if p = CHR ''.'' then takeWhile is_digit r else []);
             r2 = (case r1 of [] \<Rightarrow> []
                   | p # r \<Rightarrow> if p = CHR ''.'' then dropWhile is_digit r else r1)
         in if ip = [] \<and> fp = [] then None
            else (case float_exponent r2 of
                    None \<Rightarrow> None
                  | Some e \<Rightarrow>
                      Some (to_double (scale10 (of_nat (nat_of_digits (ip @ fp)))
                                         (e - int (length fp)))))))"

definition py_float :: "string \<Rightarrow> py_error + pyfloat" where
  "py_float s =
     (let t = float_strip s in
      if \<not> underscores_ok (CHR 0x00) t then Inl ValueError
      else
        (let u = filter (\<lambda>c. c \<noteq> CHR ''_'') t;
             r = (case u of
                    [] \<Rightarrow> None
                  | c # u' \<Rightarrow>
                      if c = CHR ''-'' then map_option pf_neg (float_unsigned u')
                      else if c = CHR ''+'' then float_unsigned u'
                      else float_unsigned u)
         in (case r of None \<Rightarrow> Inl ValueError | Some v \<Rightarrow> Inr v)))"

section \<open>Speed-string normalisers\<close>

text \<open>
  \<^verbatim>\<open>parse_hashcat_speed\<close> and \<^verbatim>\<open>parse_john_speed\<close> differ only in the multiplier
  table. The body of the \<^verbatim>\<open>try\<close> block can raise IndexError (\<^verbatim>\<open>speed_str[-1]\<close> on the
  empty string) or ValueError (\<^verbatim>\<open>float\<close>); the bare \<^verbatim>\<open>except\<close> turns either into 0.0.
\<close>

definition hashcat_multipliers :: "(char \<times> rat) list" where
  "hashcat_multipliers =
     [(CHR ''k'', 1000), (CHR ''M'', 1000000), (CHR ''G'', 1000000000),
      (CHR ''T'', 1000000000000)]"

definition john_multipliers :: "(char \<times> rat) list" where
  "john_multipliers =
     [(CHR ''K'', 1000), (CHR ''M'', 1000000), (CHR ''G'', 1000000000)]"

definition speed_try :: "(char \<times> rat) list \<Rightarrow> string \<Rightarrow> py_error + pyfloat" where
  "speed_try multipliers speed_str =
     (case py_index speed_str (- 1) of
        Inl e \<Rightarrow> Inl e
      | Inr c \<Rightarrow>
          if c \<in> fst ` set multipliers then
            (case py_float (butlast speed_str) of
               Inl e \<Rightarrow> Inl e
             | Inr v \<Rightarrow>
                 (case py_getitem multipliers c of
                    Inl e \<Rightarrow> Inl e
                  | Inr m \<Rightarrow> Inr (pf_mult v (Fin m))))
          else py_float speed_str)"

definition parse_speed :: "(char \<times> rat) list \<Rightarrow> string \<Rightarrow> py_error + pyfloat" where
  "parse_speed multipliers speed_str =
     (case speed_try multipliers speed_str of
        Inl e \<Rightarrow> Inr (Fin 0)
      | Inr v \<Rightarrow> Inr v)"

definition parse_hashcat_speed :: "string \<Rightarrow> py_error + pyfloat" where
  "parse_hashcat_speed speed_str = parse_speed hashcat_multipliers speed_str"

definition parse_john_speed :: "string \<Rightarrow> py_error + pyfloat" where
  "parse_john_speed speed_str = parse_speed john_multipliers speed_str"

section \<open>Benchmark output parsers\<close>

text \<open>
  A parsed benchmark is a Python dict from the algorithm label to a two-entry dict: the
  numeric speed (stored under \<^verbatim>\<open>speed_hs\<close> by the hashcat parser and under \<^verbatim>\<open>speed_cs\<close>
  by the John parser) and \<^verbatim>\<open>speed_formatted\<close>. A dict keeps its keys in insertion
  order and assignment to an existing key replaces the value in place, which is what
  \<^const>\<open>AList.update\<close> does on an association list.
\<close>

record metric =
  speed :: pyfloat
  speed_formatted :: string

type_synonym results = "(string \<times> metric) list"

subsection \<open>Hashcat\<close>

definition hash_types :: "(string \<times> string) list" where
  "hash_types =
     [(''0'', ''MD5''), (''100'', ''SHA1''), (''1400'', ''SHA256''),
      (''3200'', ''bcrypt''), (''1800'', ''SHA512'')]"

text \<open>
  The inner loop \<^verbatim>\<open>for j in range(i+1, len(parts))\<close>, run over the list \<open>js\<close> of the
  indices still to visit: the first token containing \<^verbatim>\<open>H/s\<close> records a metric from the
  token before it and leaves the loop.
\<close>

fun hashcat_scan :: "string list \<Rightarrow> string \<Rightarrow> results \<Rightarrow> nat list \<Rightarrow> py_error + results" where
  "hashcat_scan parts part res [] = Inr res"
| "hashcat_scan parts part res (j # js) =
     (case py_index parts (int j) of
        Inl e \<Rightarrow> Inl e
      | Inr unit \<Rightarrow>
          if py_in ''H/s'' unit then
            (case py_index parts (int j - 1) of
               Inl e \<Rightarrow> Inl e
             | Inr speed_str \<Rightarrow>
                 (case parse_hashcat_speed speed_str of
                    Inl e \<Rightarrow> Inl e
                  | Inr sp \<Rightarrow>
                      (case py_getitem hash_types part of
                         Inl e \<Rightarrow> Inl e
                       | Inr name \<Rightarrow>
                           Inr (AList.update name
                                  \<lparr>speed = sp, speed_formatted = speed_str @ '' '' @ unit\<rparr>
                                  res))))
          else hashcat_scan parts part res js)"

text \<open>
  The loop \<^verbatim>\<open>for i, part in enumerate(parts)\<close>: a known mode code starts the scan inside
  \<^verbatim>\<open>try\<close>; an exception there is swallowed and the loop continues with the dict as it
  was.
\<close>

fun hashcat_parts :: "string list \<Rightarrow> results \<Rightarrow> (nat \<times> string) list \<Rightarrow> results" where
  "hashcat_parts parts res [] = res"
| "hashcat_parts parts res ((i, part) # rest) =
     (if part \<in> fst ` set hash_types then
        (case hashcat_scan parts part res [i + 1 ..< length parts] of
           Inl e \<Rightarrow> hashcat_parts parts res rest
         | Inr res' \<Rightarrow> hashcat_parts parts res' rest)
      else hashcat_parts parts res rest)"

definition hashcat_line :: "results \<Rightarrow> string \<Rightarrow> py_error + results" where
  "hashcat_line res line =
     (if py_in ''H/s'' line then
        (let parts = py_split_ws line
         in Inr (hashcat_parts parts res (enumerate 0 parts)))
      else Inr res)"

text \<open>A \<^verbatim>\<open>for line in lines\<close> loop whose body may raise: the first exception ends it.\<close>

fun for_lines :: "(results \<Rightarrow> string \<Rightarrow> py_error + results) \<Rightarrow> results \<Rightarrow> string list \<Rightarrow> py_error + results" where
  "for_lines body res [] = Inr res"
| "for_lines body res (line # lines) =
     (case body res line of
        Inl e \<Rightarrow> Inl e
      | Inr res' \<Rightarrow> for_lines body res' lines)"

definition parse_hashcat_benchmark :: "string \<Rightarrow> py_error + results" where
  "parse_hashcat_benchmark output =
     for_lines hashcat_line [] (py_split_on (CHR 0x0A) output)"

subsection \<open>John the Ripper\<close>

text \<open>
  \<^verbatim>\<open>re.search(r'(\d+(?:\.\d+)?[KMG]?)\s*c/s', s, re.IGNORECASE)\<close>. At a fixed start the
  pattern has one way to match: every piece is greedy and no shorter choice for a piece
  lets the next piece match (a digit, a point, a suffix letter or a blank is never the
  character the following piece needs). \<open>john_match_at\<close> is the match anchored at the
  start of its argument, returned as (group 1, group 0); \<open>john_search\<close> takes the
  leftmost start that matches.
\<close>

definition john_match_at :: "string \<Rightarrow> (string \<times> string) option" where
  "john_match_at s =
     (let d1 = takeWhile is_digit s;
          r1 = dropWhile is_digit s;
          frac = (case r1 of [] \<Rightarrow> []
                  | p # r \<Rightarrow> if p = CHR ''.'' \<and> takeWhile is_digit r \<noteq> []
                            then p # takeWhile is_digit r else []);
          r2 = drop (length frac) r1;
          suf = (case r2 of [] \<Rightarrow> []
                 | c # r \<Rightarrow> if c \<in> set ''KMGkmg'' then [c] else []);
          r3 = drop (length suf) r2;
          ws = takeWhile is_space r3;
          r4 = dropWhile is_space r3
      in if d1 = [] then None
         else (case r4 of
                 a # b # c # r \<Rightarrow>
                   if (a = CHR ''c'' \<or> a = CHR ''C'') \<and> b = CHR ''/''
                      \<and> (c = CHR ''s'' \<or> c = CHR ''S'')
                   then Some (d1 @ frac @ suf, d1 @ frac @ suf @ ws @ [a, b, c])
                   else None
               | _ \<Rightarrow> None))"

fun john_search :: "string \<Rightarrow> (string \<times> string) option" where
  "john_search [] = None"
| "john_search (c # cs) =
     (case john_match_at (c # cs) of
        Some m \<Rightarrow> Some m
      | None \<Rightarrow> john_search cs)"

definition john_line :: "results \<Rightarrow> string \<Rightarrow> py_error + results" where
  "john_line res line =
     (if py_in ''c/s'' (py_lower line) then
        if CHR '':'' \<in> set line then
          (let parts = py_split_on (CHR '':'') line
           in if 2 \<le> length parts then
                (case py_index parts 0 of
                   Inl e \<Rightarrow> Inl e
                 | Inr p0 \<Rightarrow>
                     (case py_index parts 1 of
                        Inl e \<Rightarrow> Inl e
                      | Inr p1 \<Rightarrow>
                          (let hash_type = py_strip p0;
                               speed_part = py_strip p1
                           in (case john_search speed_part of
                                 None \<Rightarrow> Inr res
                               | Some (speed_str, matched) \<Rightarrow>
                                   (case parse_john_speed speed_str of
                                      Inl e \<Rightarrow> Inl e
                                    | Inr sp \<Rightarrow>
                                        Inr (AList.update hash_type
                                               \<lparr>speed = sp, speed_formatted = matched\<rparr>
                                               res))))))
              else Inr res)
        else Inr res
      else Inr res)"

definition parse_john_benchmark :: "string \<Rightarrow> py_error + results" where
  "parse_john_benchmark output =
     for_lines john_line [] (py_split_on (CHR 0x0A) output)"

subsection \<open>What a line contributes\<close>

text \<open>
  A token is a unit token when it contains \<^verbatim>\<open>H/s\<close>. A line matches grammar A when it
  contains \<^verbatim>\<open>H/s\<close> and one of its tokens is a known mode code with a unit token somewhere
  after it; it matches grammar B when it contains \<^verbatim>\<open>c/s\<close> in any case, contains a colon,
  and the pattern is found in the trimmed text between the first and the second colon.
  \<open>speed_token_ok parts m\<close> says that the rate of \<open>m\<close> is what \<^verbatim>\<open>parse_hashcat_speed\<close>
  returns on a token that stands right before a unit token.
\<close>

definition unit_token :: "string list \<Rightarrow> nat \<Rightarrow> bool" where
  "unit_token parts j = py_in ''H/s'' (parts ! j)"

definition speed_token_ok :: "string list \<Rightarrow> metric \<Rightarrow> bool" where
  "speed_token_ok parts m =
     list_ex (\<lambda>j. unit_token parts j \<and> parse_hashcat_speed (parts ! (j - 1)) = Inr (speed m))
       [1 ..< length parts]"

definition hashcat_matches :: "string \<Rightarrow> bool" where
  "hashcat_matches line =
     (py_in ''H/s'' line \<and>
      list_ex (\<lambda>(i, part). part \<in> fst ` set hash_types \<and>
                 list_ex (unit_token (py_split_ws line)) [i + 1 ..< length (py_split_ws line)])
        (enumerate 0 (py_split_ws line)))"

definition john_matches :: "string \<Rightarrow> bool" where
  "john_matches line =
     (py_in ''c/s'' (py_lower line) \<and> CHR '':'' \<in> set line \<and>
      john_search (py_strip (py_split_on (CHR '':'') line ! 1)) \<noteq> None)"

text \<open>The label of a John line: the text before the first colon, trimmed.\<close>

definition john_label :: "string \<Rightarrow> string" where
  "john_label line = py_strip (hd (py_split_on (CHR '':'') line))"

definition raw_md5_line :: string where
  "raw_md5_line = ''Raw-MD5 : 3456 c/s real, 3456 c/s virtual''"

section \<open>Input classes of the speed-string contract\<close>

text \<open>
  A decimal numeral is a non-empty run of digits, optionally followed by a point and a
  second non-empty run of digits; its value is the integer part plus the fraction.
\<close>

definition decimal_numeral :: "string \<Rightarrow> bool" where
  "decimal_numeral d =
     (takeWhile is_digit d \<noteq> [] \<and>
      (dropWhile is_digit d = [] \<or>
       (take 1 (dropWhile is_digit d) = ''.'' \<and> drop 1 (dropWhile is_digit d) \<noteq> [] \<and>
        list_all is_digit (drop 1 (dropWhile is_digit d)))))"

definition decimal_value :: "string \<Rightarrow> rat" where
  "decimal_value d =
     of_nat (nat_of_digits (takeWhile is_digit d)) +
     of_nat (nat_of_digits (drop 1 (dropWhile is_digit d))) /
       10 ^ length (drop 1 (dropWhile is_digit d))"

text \<open>
  The tokens of a line that stand right before a unit token: the only tokens
  \<^verbatim>\<open>parse_hashcat_benchmark\<close> ever reads as a speed. A token is \<open>minus_or_nan\<close> when it
  begins with a minus sign or contains \<^verbatim>\<open>nan\<close> in any case.
\<close>

definition speed_tokens :: "string list \<Rightarrow> string list" where
  "speed_tokens parts =
     map (\<lambda>j. parts ! (j - 1)) (filter (unit_token parts) [1 ..< length parts])"

definition minus_or_nan :: "string \<Rightarrow> bool" where
  "minus_or_nan t = (take 1 t = ''-'' \<or> py_in ''nan'' (py_lower t))"

section \<open>The host: files, processes and the clock\<close>

text \<open>
  Everything the script reads from its surroundings is a field of \<open>host\<close>.
  \<^verbatim>\<open>subprocess.run\<close> with a timeout either returns (return code, captured stdout and
  stderr; the last field is the wall-clock time \<^verbatim>\<open>time.time()\<close> measures around the
  call) or raises: FileNotFoundError when the tool is absent, TimeoutExpired, or anything
  else. A path either does not exist, or exists and cannot be read, or holds a text.
  \<open>can_write\<close> and \<open>can_remove\<close> say whether \<^verbatim>\<open>open(path, 'w')\<close> with its writes and
  \<^verbatim>\<open>os.remove(path)\<close> succeed. \<open>int_max_str_digits\<close> is the interpreter's limit on the
  length of a digit string \<^verbatim>\<open>int()\<close> converts (0: no limit). The external tools are taken
  to leave the working directory's files alone.
\<close>

datatype proc_outcome = Completed int string string rat | Raised py_error

datatype file_outcome = Missing | Unreadable | Content string

record host =
  run_proc :: "string list \<Rightarrow> proc_outcome"
  read_file :: "string \<Rightarrow> file_outcome"
  can_write :: "string \<Rightarrow> bool"
  can_remove :: "string \<Rightarrow> bool"
  clock_iso :: string
  clock_stamp :: string
  sys_platform :: string
  int_max_str_digits :: nat

type_synonym files = "string \<rightharpoonup> string"

definition write_file :: "host \<Rightarrow> string \<Rightarrow> string \<Rightarrow> files \<Rightarrow> py_error + files" where
  "write_file h path content fs =
     (if can_write h path then Inr (fs(path \<mapsto> content)) else Inl OSError)"

definition os_remove :: "host \<Rightarrow> string \<Rightarrow> files \<Rightarrow> py_error + files" where
  "os_remove h path fs =
     (if fs path \<noteq> None \<and> can_remove h path then Inr (fs(path := None)) else Inl OSError)"

definition py_int :: "host \<Rightarrow> string \<Rightarrow> py_error + nat" where
  "py_int h ds =
     (if 0 < int_max_str_digits h \<and> int_max_str_digits h < length ds then Inl ValueError
      else Inr (nat_of_digits ds))"

section \<open>Host context\<close>

text \<open>
  The dict built by \<^verbatim>\<open>gather_system_info\<close>: \<^verbatim>\<open>timestamp\<close> and \<^verbatim>\<open>platform\<close> are always set,
  the keys \<^verbatim>\<open>cpu\<close>, \<^verbatim>\<open>memory_gb\<close> and \<^verbatim>\<open>gpu\<close> may be missing.
\<close>

record system_info =
  info_timestamp :: string
  platform :: string
  cpu :: "string option"
  memory_gb :: "nat option"
  gpu :: "string option"

text \<open>
  \<^verbatim>\<open>re.search(r'model name\s*:\s*(.+)', text)\<close>, group 1. After the colon the blanks are
  skipped and the group runs to the end of the line; when only blanks are left, the
  pattern gives one of them back: the group is the last blank that is not a newline.
\<close>

definition cpu_group :: "string \<Rightarrow> string option" where
  "cpu_group s =
     (case dropWhile is_space s of
        [] \<Rightarrow> None
      | c # r \<Rightarrow>
          if c = CHR '':'' then
            (if dropWhile is_space r \<noteq> []
             then Some (takeWhile (\<lambda>x. x \<noteq> CHR 0x0A) (dropWhile is_space r))
             else (case filter (\<lambda>x. x \<noteq> CHR 0x0A) (takeWhile is_space r) of
                     [] \<Rightarrow> None
                   | x # xs \<Rightarrow> Some [last (x # xs)]))
          else None)"

fun search_cpu_model :: "string \<Rightarrow> string option" where
  "search_cpu_model [] = None"
| "search_cpu_model (c # cs) =
     (if take 10 (c # cs) = ''model name'' then
        (case cpu_group (drop 10 (c # cs)) of
           Some g \<Rightarrow> Some g
         | None \<Rightarrow> search_cpu_model cs)
      else search_cpu_model cs)"

text \<open>\<^verbatim>\<open>re.search(r'MemTotal:\s*(\d+)', text)\<close>, group 1.\<close>

fun search_mem_total :: "string \<Rightarrow> string option" where
  "search_mem_total [] = None"
| "search_mem_total (c # cs) =
     (if take 9 (c # cs) = ''MemTotal:'' \<and>
         takeWhile is_digit (dropWhile is_space (drop 9 (c # cs))) \<noteq> []
      then Some (takeWhile is_digit (dropWhile is_space (drop 9 (c # cs))))
      else search_mem_total cs)"

text \<open>
  The three blocks inside the outer \<^verbatim>\<open>try\<close> of \<^verbatim>\<open>gather_system_info\<close>. The first two can
  raise (opening or reading the file, \<^verbatim>\<open>int\<close>); the third has a bare \<^verbatim>\<open>except\<close> of its own.
\<close>

definition cpu_step :: "host \<Rightarrow> system_info \<Rightarrow> py_error + system_info" where
  "cpu_step h info =
     (case read_file h ''/proc/cpuinfo'' of
        Missing \<Rightarrow> Inr info
      | Unreadable \<Rightarrow> Inl OSError
      | Content cpu_info \<Rightarrow>
          (case search_cpu_model cpu_info of
             None \<Rightarrow> Inr info
           | Some g \<Rightarrow> Inr (info\<lparr>cpu := Some (py_strip g)\<rparr>)))"

definition mem_step :: "host \<Rightarrow> system_info \<Rightarrow> py_error + system_info" where
  "mem_step h info =
     (case read_file h ''/proc/meminfo'' of
        Missing \<Rightarrow> Inr info
      | Unreadable \<Rightarrow> Inl OSError
      | Content mem_info \<Rightarrow>
          (case search_mem_total mem_info of
             None \<Rightarrow> Inr info
           | Some g \<Rightarrow>
               (case py_int h g of
                  Inl e \<Rightarrow> Inl e
                | Inr n \<Rightarrow> Inr (info\<lparr>memory_gb := Some (n div 1024 div 1024)\<rparr>))))"

definition nvidia_smi :: "string list" where
  "nvidia_smi = [''nvidia-smi'', ''--query-gpu=name'', ''--format=csv,noheader'']"

definition gpu_step :: "host \<Rightarrow> system_info \<Rightarrow> system_info" where
  "gpu_step h info =
     (case run_proc h nvidia_smi of
        Raised e \<Rightarrow> info\<lparr>gpu := Some ''Not available''\<rparr>
      | Completed returncode out err secs \<Rightarrow>
          if returncode = 0 then
            (case py_index (py_split_on (CHR 0x0A) (py_strip out)) 0 of
               Inl e \<Rightarrow> info\<lparr>gpu := Some ''Not available''\<rparr>
             | Inr name \<Rightarrow> info\<lparr>gpu := Some name\<rparr>)
          else info)"

text \<open>An exception in the first or second block ends the \<^verbatim>\<open>try\<close>; the handler prints a
  warning and the dict is returned as it stands.\<close>

definition blank_info :: "host \<Rightarrow> system_info" where
  "blank_info h =
     \<lparr>info_timestamp = clock_iso h, platform = sys_platform h,
      cpu = None, memory_gb = None, gpu = None\<rparr>"

definition gather_system_info :: "host \<Rightarrow> system_info" where
  "gather_system_info h =
     (case cpu_step h (blank_info h) of
        Inl e \<Rightarrow> blank_info h
      | Inr info1 \<Rightarrow>
          (case mem_step h info1 of
             Inl e \<Rightarrow> info1
           | Inr info2 \<Rightarrow> gpu_step h info2))"

text \<open>The object: \<^verbatim>\<open>__init__\<close> sets \<^verbatim>\<open>self.system_info\<close> and \<^verbatim>\<open>self.timestamp\<close>.\<close>

record benchmark =
  self_system_info :: system_info
  self_timestamp :: string

definition init :: "host \<Rightarrow> benchmark" where
  "init h = \<lparr>self_system_info = gather_system_info h, self_timestamp = clock_stamp h\<rparr>"

section \<open>Tool availability and benchmark runs\<close>

definition tool_available :: "host \<Rightarrow> string \<Rightarrow> bool" where
  "tool_available h tool =
     (case run_proc h [tool, ''--version''] of
        Raised e \<Rightarrow> False
      | Completed returncode out err secs \<Rightarrow> True)"

definition check_tool_availability :: "host \<Rightarrow> bool \<times> bool" where
  "check_tool_availability h = (tool_available h ''hashcat'', tool_available h ''john'')"

definition benchmark_hashcat :: "host \<Rightarrow> results" where
  "benchmark_hashcat h =
     (case run_proc h [''hashcat'', ''-b'', ''-m'', ''0,100,1400,3200,1800''] of
        Raised e \<Rightarrow> []
      | Completed returncode out err secs \<Rightarrow>
          if returncode \<noteq> 0 then []
          else (case parse_hashcat_benchmark out of Inl e \<Rightarrow> [] | Inr r \<Rightarrow> r))"

definition benchmark_john :: "host \<Rightarrow> results" where
  "benchmark_john h =
     (case run_proc h [''john'', ''--test=10''] of
        Raised e \<Rightarrow> []
      | Completed returncode out err secs \<Rightarrow>
          (case parse_john_benchmark (out @ err) of Inl e \<Rightarrow> [] | Inr r \<Rightarrow> r))"

section \<open>Attack performance runner\<close>

record attack_result =
  time_seconds :: rat
  success :: bool

definition test_hashes :: "string list" where
  "test_hashes =
     [''5f4dcc3b5aa765d61d8327deb882cf99'', ''e10adc3949ba59abbe56e057f20f883e'',
      ''21232f297a57a5a743894a0e4a801fc3'']"

definition wordlist :: "string list" where
  "wordlist = [''password'', ''123456'', ''admin'', ''test'', ''hello'', ''world'', ''secret'']"

definition hash_file :: "string \<Rightarrow> string" where
  "hash_file ts = ''test_hashes_'' @ ts @ ''.txt''"

definition wordlist_file :: "string \<Rightarrow> string" where
  "wordlist_file ts = ''test_wordlist_'' @ ts @ ''.txt''"

definition lines_text :: "string list \<Rightarrow> string" where
  "lines_text ls = concat (map (\<lambda>l. l @ [CHR 0x0A]) ls)"

text \<open>One attack attempt: the \<^verbatim>\<open>try\<close> block around \<^verbatim>\<open>subprocess.run\<close> and its bare
  \<^verbatim>\<open>except\<close>.\<close>

definition attack_attempt :: "host \<Rightarrow> string list \<Rightarrow> attack_result" where
  "attack_attempt h cmd =
     (case run_proc h cmd of
        Raised e \<Rightarrow> \<lparr>time_seconds = 0, success = False\<rparr>
      | Completed returncode out err secs \<Rightarrow>
          \<lparr>time_seconds = secs, success = (returncode = 0)\<rparr>)"

text \<open>The cleanup block: both removals stand in one \<^verbatim>\<open>try\<close>, so the second is reached
  only when the first succeeds; the bare \<^verbatim>\<open>except\<close> swallows either failure.\<close>

definition cleanup :: "host \<Rightarrow> string \<Rightarrow> files \<Rightarrow> files" where
  "cleanup h ts fs =
     (case os_remove h (hash_file ts) fs of
        Inl e \<Rightarrow> fs
      | Inr fs1 \<Rightarrow>
          (case os_remove h (wordlist_file ts) fs1 of
             Inl e \<Rightarrow> fs1
           | Inr fs2 \<Rightarrow> fs2))"

definition run_attack_performance_test ::
  "host \<Rightarrow> string \<Rightarrow> files \<Rightarrow> (py_error + (string \<times> attack_result) list) \<times> files" where
  "run_attack_performance_test h ts fs =
     (case write_file h (hash_file ts) (lines_text test_hashes) fs of
        Inl e \<Rightarrow> (Inl e, fs)
      | Inr fs1 \<Rightarrow>
          (case write_file h (wordlist_file ts) (lines_text wordlist) fs1 of
             Inl e \<Rightarrow> (Inl e, fs1)
           | Inr fs2 \<Rightarrow>
               (Inr (AList.update ''john_dictionary''
                       (attack_attempt h
                          [''john'', ''--wordlist='' @ wordlist_file ts, hash_file ts,
                           ''--format=Raw-MD5''])
                       (AList.update ''hashcat_dictionary''
                          (attack_attempt h
                             [''hashcat'', ''-m'', ''0'', hash_file ts, wordlist_file ts,
                              ''--potfile-disable'', ''--quiet''])
                          [])),
                cleanup h ts fs2)))"

section \<open>Report assembly\<close>

record tools =
  hashcat :: bool
  john_the_ripper :: bool

record metadata =
  timestamp :: string
  system_info :: system_info
  tools_available :: tools

record report =
  metadata :: metadata
  benchmarks :: "(string \<times> results) list"
  performance_tests :: "(string \<times> attack_result) list"

definition generate_report :: "host \<Rightarrow> benchmark \<Rightarrow> files \<Rightarrow> (py_error + report) \<times> files" where
  "generate_report h self fs =
     (case check_tool_availability h of
        (hashcat_available, john_available) \<Rightarrow>
          (case (if hashcat_available \<or> john_available
                 then run_attack_performance_test h (self_timestamp self) fs
                 else (Inr [], fs)) of
             (Inl e, fs') \<Rightarrow> (Inl e, fs')
           | (Inr tests, fs') \<Rightarrow>
               (Inr \<lparr>metadata =
                       \<lparr>timestamp = self_timestamp self,
                          system_info = self_system_info self,
                          tools_available =
                            \<lparr>hashcat = hashcat_available,
                               john_the_ripper = john_available\<rparr>\<rparr>,
                     benchmarks =
                       (if john_available
                        then AList.update ''john_the_ripper'' (benchmark_john h)
                        else id)
                         (if hashcat_available
                          then AList.update ''hashcat'' (benchmark_hashcat h) []
                          else []),
                     performance_tests = tests\<rparr>,
                fs')))"

section \<open>Example hosts\<close>

text \<open>A host with no tool installed, and hosts on which one step of the script fails.\<close>

definition bare_host :: host where
  "bare_host =
     \<lparr>run_proc = (\<lambda>cmd. Raised OSError), read_file = (\<lambda>path. Missing),
      can_write = (\<lambda>path. True), can_remove = (\<lambda>path. True),
      clock_iso = ''2024-01-01T00:00:00'', clock_stamp = ''20240101_000000'',
      sys_platform = ''linux'', int_max_str_digits = 4300\<rparr>"

definition tools_host :: host where
  "tools_host = bare_host\<lparr>run_proc := (\<lambda>cmd. Completed 1 [] [] 2)\<rparr>"

definition wordlist_unwritable_host :: host where
  "wordlist_unwritable_host =
     tools_host\<lparr>can_write := (\<lambda>path. path = ''test_hashes_20240101_000000.txt'')\<rparr>"

definition hash_unremovable_host :: host where
  "hash_unremovable_host =
     tools_host\<lparr>can_remove := (\<lambda>path. path = ''test_wordlist_20240101_000000.txt'')\<rparr>"

definition cpu_unreadable_host :: host where
  "cpu_unreadable_host =
     bare_host\<lparr>run_proc := (\<lambda>cmd. Completed 0 ''GPU 0'' [] 0),
                read_file := (\<lambda>path. if path = ''/proc/cpuinfo'' then Unreadable
                                    else if path = ''/proc/meminfo''
                                    then Content ''MemTotal: 16384000 kB'' else Missing)\<rparr>"

definition failing_tools_host :: host where
  "failing_tools_host =
     bare_host\<lparr>run_proc := (\<lambda>cmd. if take 1 cmd = [''hashcat''] then Raised TimeoutExpired
                                  else Completed 1 [] [] 2)\<rparr>"

definition readonly_host :: host where
  "readonly_host = tools_host\<lparr>can_write := (\<lambda>path. False)\<rparr>"

definition gpu_less_host :: host where
  "gpu_less_host =
     bare_host\<lparr>read_file := (\<lambda>path. if path = ''/proc/cpuinfo''
                                    then Content ''model name : Xeon''
                                    else if path = ''/proc/meminfo''
                                    then Content ''MemTotal: 16384000 kB'' else Missing)\<rparr>"

section \<open>Evaluation rules\<close>

lemmas char_class_defs = is_digit_def is_space_def float_space_def lower_char_def py_lower_def

text \<open>The leading bit of a numeral, and the floor of a fraction of numerals, as rewrite
  rules: with them the simplifier rounds a literal to its double.\<close>

lemma floor_log2_numeral:
  "floor_log2 0 = 0"
  "floor_log2 (Suc 0) = 0"
  "floor_log2 1 = 0"
  "floor_log2 (numeral Num.One) = 0"
  "floor_log2 (numeral (Num.Bit0 n)) = Suc (floor_log2 (numeral n))"
  "floor_log2 (numeral (Num.Bit1 n)) = Suc (floor_log2 (numeral n))"
proof -
  show "floor_log2 0 = 0" "floor_log2 (Suc 0) = 0" "floor_log2 1 = 0" "floor_log2 (numeral Num.One) = 0"
    by (simp_all add: floor_log2.simps)
  have a: "numeral (Num.Bit0 n) div 2 = (numeral n :: nat)" by simp
  have b: "\<not> (numeral (Num.Bit0 n) :: nat) < 2"
  proof -
    have "(numeral (Num.Bit0 n) :: nat) = numeral n + numeral n" by (rule numeral_Bit0)
    moreover have "(1 :: nat) \<le> numeral n" by (rule one_le_numeral)
    ultimately show ?thesis by linarith
  qed
  show "floor_log2 (numeral (Num.Bit0 n)) = Suc (floor_log2 (numeral n))"
    by (subst floor_log2.simps) (simp only: a b if_False)
  have c: "numeral (Num.Bit1 n) div 2 = (numeral n :: nat)" by simp
  have d: "\<not> (numeral (Num.Bit1 n) :: nat) < 2"
  proof -
    have "(numeral (Num.Bit1 n) :: nat) = numeral n + numeral n + 1" by (rule numeral_Bit1)
    moreover have "(1 :: nat) \<le> numeral n" by (rule one_le_numeral)
    ultimately show ?thesis by linarith
  qed
  show "floor_log2 (numeral (Num.Bit1 n)) = Suc (floor_log2 (numeral n))"
    by (subst floor_log2.simps) (simp only: c d if_False)
qed

lemma floor_numeral_frac: "\<lfloor>numeral a / numeral b :: rat\<rfloor> = numeral a div numeral b"
  using floor_divide_of_int_eq[of "numeral a" "numeral b", where ?'a = rat] by simp

lemmas double_defs = to_double_def double_exponent_def rat_floor_log2_def round_half_even_def
  pow2_def floor_log2_numeral floor_numeral_frac

lemmas float_defs = py_float_def float_strip_def float_unsigned_def float_exponent_def
  nat_of_digits_def digit_val_def scale10_def

lemmas speed_defs = parse_hashcat_speed_def parse_john_speed_def parse_speed_def speed_try_def
  hashcat_multipliers_def john_multipliers_def py_index_def py_getitem_def

lemmas hashcat_defs = parse_hashcat_benchmark_def hashcat_line_def py_split_ws_def
  hash_types_def enumerate_eq_zip upt_rec

lemmas john_defs = parse_john_benchmark_def john_line_def john_match_at_def py_strip_def

lemmas host_defs = bare_host_def tools_host_def wordlist_unwritable_host_def
  hash_unremovable_host_def cpu_unreadable_host_def failing_tools_host_def readonly_host_def
  gpu_less_host_def

lemmas runner_defs = run_attack_performance_test_def write_file_def os_remove_def cleanup_def
  attack_attempt_def hash_file_def wordlist_file_def

lemmas report_defs = generate_report_def check_tool_availability_def tool_available_def
  benchmark_hashcat_def benchmark_john_def init_def

lemmas info_defs = gather_system_info_def blank_info_def cpu_step_def mem_step_def gpu_step_def
  nvidia_smi_def py_int_def cpu_group_def

section \<open>The hashcat token loop\<close>


lemma py_index_nat: "j < length xs \<Longrightarrow> py_index xs (int j) = Inr (xs ! j)"
  by (simp add: py_index_def)

lemma py_index_pred: "0 < j \<Longrightarrow> j < length xs \<Longrightarrow> py_index xs (int j - 1) = Inr (xs ! (j - 1))"
  by (simp add: py_index_def nat_diff_distrib')

lemma parse_speed_total: "\<exists>v. parse_speed m s = Inr v"
  by (simp add: parse_speed_def split: sum.splits)

lemma hash_types_getitem:
  "part \<in> fst ` set hash_types \<Longrightarrow> \<exists>name. py_getitem hash_types part = Inr name \<and> map_of hash_types part = Some name"
  by (auto simp: py_getitem_def hash_types_def)

lemma hashcat_scan_result:
  assumes "map_of hash_types part = Some name"
    and "\<forall>j\<in>set js. 0 < j \<and> j < length parts"
  shows "(\<not> list_ex (unit_token parts) js \<and> hashcat_scan parts part res js = Inr res) \<or>
         (\<exists>j\<in>set js. \<exists>v. unit_token parts j \<and> parse_hashcat_speed (parts ! (j - 1)) = Inr v \<and>
            hashcat_scan parts part res js =
              Inr (AList.update name \<lparr>speed = v, speed_formatted = parts ! (j - 1) @ '' '' @ parts ! j\<rparr> res))"
  using assms(2)
proof (induction js)
  case Nil
  then show ?case by simp
next
  case (Cons j js)
  then have j: "0 < j" "j < length parts" by simp_all
  obtain v where v: "parse_hashcat_speed (parts ! (j - 1)) = Inr v"
    using parse_speed_total[of hashcat_multipliers] by (auto simp: parse_hashcat_speed_def)
  have g: "py_getitem hash_types part = Inr name"
    using assms(1) by (simp add: py_getitem_def)
  show ?case
  proof (cases "unit_token parts j")
    case True
    then show ?thesis
      using j v g by (simp add: py_index_nat py_index_pred unit_token_def)
  next
    case False
    with Cons show ?thesis
      using j by (auto simp: py_index_nat unit_token_def)
  qed
qed

lemma hashcat_parts_inv:
  assumes "\<forall>(i, p)\<in>set rest. i < length parts"
    and "P res"
    and step: "\<And>r name m. P r \<Longrightarrow> name \<in> snd ` set hash_types \<Longrightarrow> speed_token_ok parts m
                 \<Longrightarrow> P (AList.update name m r)"
  shows "P (hashcat_parts parts res rest)"
  using assms(1,2)
proof (induction rest arbitrary: res)
  case Nil
  then show ?case by simp
next
  case (Cons ip rest)
  obtain i part where ip: "ip = (i, part)" by (cases ip)
  show ?case
  proof (cases "part \<in> fst ` set hash_types")
    case False
    with Cons ip show ?thesis by simp
  next
    case True
    then obtain name where name: "map_of hash_types part = Some name"
      using hash_types_getitem by blast
    then have mem: "name \<in> snd ` set hash_types"
      by (metis map_of_SomeD image_eqI snd_conv)
    have js: "\<forall>j\<in>set [i + 1 ..< length parts]. 0 < j \<and> j < length parts" by simp
    from hashcat_scan_result[OF name js, of res]
    show ?thesis
    proof
      assume "\<not> list_ex (unit_token parts) [i + 1..<length parts] \<and>
        hashcat_scan parts part res [i + 1..<length parts] = Inr res"
      with Cons ip True show ?thesis by simp
    next
      assume "\<exists>j\<in>set [i + 1..<length parts]. \<exists>v. unit_token parts j \<and>
        parse_hashcat_speed (parts ! (j - 1)) = Inr v \<and>
        hashcat_scan parts part res [i + 1..<length parts] =
          Inr (AList.update name \<lparr>speed = v, speed_formatted = parts ! (j - 1) @ '' '' @ parts ! j\<rparr> res)"
      then obtain j v where j: "j \<in> set [i + 1..<length parts]" "unit_token parts j"
        "parse_hashcat_speed (parts ! (j - 1)) = Inr v"
        and sc: "hashcat_scan parts part res [i + 1..<length parts] =
          Inr (AList.update name \<lparr>speed = v, speed_formatted = parts ! (j - 1) @ '' '' @ parts ! j\<rparr> res)"
        by blast
      have "speed_token_ok parts \<lparr>speed = v, speed_formatted = parts ! (j - 1) @ '' '' @ parts ! j\<rparr>"
        unfolding speed_token_ok_def list_ex_iff using j by (intro bexI[of _ j]) auto
      then have "P (AList.update name \<lparr>speed = v, speed_formatted = parts ! (j - 1) @ '' '' @ parts ! j\<rparr> res)"
        using step Cons.prems(2) mem by blast
      with Cons ip True sc show ?thesis by simp
    qed
  qed
qed


lemma hashcat_parts_unmatched:
  "\<forall>(i, p)\<in>set rest. \<not> (p \<in> fst ` set hash_types \<and> list_ex (unit_token parts) [i + 1 ..< length parts])
   \<Longrightarrow> \<forall>(i, p)\<in>set rest. i < length parts
   \<Longrightarrow> hashcat_parts parts res rest = res"
proof (induction rest arbitrary: res)
  case Nil
  then show ?case by simp
next
  case (Cons ip rest)
  obtain i part where ip: "ip = (i, part)" by (cases ip)
  show ?case
  proof (cases "part \<in> fst ` set hash_types")
    case False
    with Cons ip show ?thesis by simp
  next
    case True
    then obtain name where name: "map_of hash_types part = Some name"
      using hash_types_getitem by blast
    have js: "\<forall>j\<in>set [i + 1 ..< length parts]. 0 < j \<and> j < length parts" by simp
    have no: "\<not> list_ex (unit_token parts) [i + 1 ..< length parts]"
      using Cons.prems(1) ip True by simp
    with hashcat_scan_result[OF name js, of res]
    have "hashcat_scan parts part res [i + 1..<length parts] = Inr res"
      by (auto simp: list_ex_iff)
    with Cons ip True show ?thesis by simp
  qed
qed


lemma enumerate_bound: "\<forall>(i, p)\<in>set (enumerate 0 parts). i < length parts"
  by (auto simp: in_set_enumerate_eq)

lemma hashcat_line_total: "\<exists>r. hashcat_line res line = Inr r"
  by (simp add: hashcat_line_def Let_def)

lemma hashcat_line_unmatched: "\<not> hashcat_matches line \<Longrightarrow> hashcat_line res line = Inr res"
proof (cases "py_in ''H/s'' line")
  case False
  then show ?thesis by (simp add: hashcat_line_def)
next
  case True
  assume "\<not> hashcat_matches line"
  with True have "\<forall>(i, p)\<in>set (enumerate 0 (py_split_ws line)).
      \<not> (p \<in> fst ` set hash_types \<and>
         list_ex (unit_token (py_split_ws line)) [i + 1 ..< length (py_split_ws line)])"
    unfolding hashcat_matches_def list_ex_iff by blast
  from hashcat_parts_unmatched[OF this enumerate_bound]
  show ?thesis by (simp add: hashcat_line_def)
qed

lemma length_py_split_on: "length (py_split_on sep s) = Suc (count_list s sep)"
  by (induction s) (auto split: list.splits)

lemma py_split_on_two: "sep \<in> set s \<Longrightarrow> 2 \<le> length (py_split_on sep s)"
  using count_list_0_iff[of s sep] by (simp add: length_py_split_on) 

lemma parse_speed_not_Inl: "parse_speed m s \<noteq> Inl e"
  by (simp add: parse_speed_def split: sum.splits)

lemma john_line_total: "\<exists>r. john_line res line = Inr r"
  by (auto simp: john_line_def Let_def py_index_def parse_john_speed_def parse_speed_not_Inl
      split: sum.splits option.splits prod.splits)

lemma john_line_unmatched: "\<not> john_matches line \<Longrightarrow> john_line res line = Inr res"
  by (auto simp: john_line_def john_matches_def Let_def py_index_def split: sum.splits option.splits prod.splits)

lemma for_lines_total:
  "(\<And>r l. \<exists>r'. body r l = Inr r') \<Longrightarrow> \<exists>r'. for_lines body res ls = Inr r'"
proof (induction ls arbitrary: res)
  case Nil
  then show ?case by simp
next
  case (Cons l ls)
  obtain r' where "body res l = Inr r'" using Cons.prems by blast
  then show ?case using Cons by simp
qed

lemma for_lines_filter:
  "(\<And>r l. \<not> P l \<Longrightarrow> body r l = Inr r) \<Longrightarrow>
   for_lines body res ls = for_lines body res (filter P ls)"
  by (induction ls arbitrary: res) (auto split: sum.splits)

section \<open>Grammar A on a value followed by a separate unit token\<close>

text \<open>
  C2. The claim: a line in which the token \<^verbatim>\<open>0\<close> is followed by the tokens \<^verbatim>\<open>12.4\<close> and
  \<^verbatim>\<open>MH/s\<close> gives MD5 the rate 12.4e6 and the display string \<^verbatim>\<open>12.4 MH/s\<close>. On the
  text \<^verbatim>\<open>0 12.4 MH/s\<close> the parser does record an MD5 entry with that display string, but
  the rate is 12.4: \<^verbatim>\<open>parse_hashcat_speed\<close> is handed the token before the unit token, and
  the magnitude letter \<^verbatim>\<open>M\<close> sits in the unit token, so no multiplier of the table applies.
  The rate is scaled to 12.4e6 only when the letter is attached to the number, as in
  \<^verbatim>\<open>0 12.4M H/s\<close>. The float 12.4 is the double \<open>6980579422424269 / 2 ^ 49\<close>, and its
  product with 1e6 rounds to 12400000 exactly.
\<close>

theorem C2_hashcat_rate_unscaled:
  "parse_hashcat_benchmark ''0 12.4 MH/s'' =
     Inr [(''MD5'', \<lparr>speed = Fin (6980579422424269 / 562949953421312),
                     speed_formatted = ''12.4 MH/s''\<rparr>)] \<and>
   parse_hashcat_benchmark ''0 12.4M H/s'' =
     Inr [(''MD5'', \<lparr>speed = Fin 12400000, speed_formatted = ''12.4M H/s''\<rparr>)]"
  by (simp add: hashcat_defs char_class_defs float_defs speed_defs)
    (simp add: double_defs)

section \<open>Totality of the two parsers\<close>

text \<open>
  C3. For every input string, \<^verbatim>\<open>parse_hashcat_benchmark\<close> and \<^verbatim>\<open>parse_john_benchmark\<close>
  return a mapping and raise nothing, and a line that does not match the grammar
  contributes nothing: each parser gives the same result on the matching lines alone,
  and its loop body returns the mapping unchanged on a line that does not match.
\<close>

theorem C3_parsers_total:
  "(\<exists>r. parse_hashcat_benchmark output = Inr r) \<and>
   (\<exists>r. parse_john_benchmark output = Inr r) \<and>
   parse_hashcat_benchmark output =
     for_lines hashcat_line [] (filter hashcat_matches (py_split_on (CHR 0x0A) output)) \<and>
   parse_john_benchmark output =
     for_lines john_line [] (filter john_matches (py_split_on (CHR 0x0A) output)) \<and>
   (\<not> hashcat_matches line \<longrightarrow> hashcat_line res line = Inr res) \<and>
   (\<not> john_matches line \<longrightarrow> john_line res line = Inr res)"
proof -
  have h: "\<exists>r. parse_hashcat_benchmark output = Inr r"
    unfolding parse_hashcat_benchmark_def by (rule for_lines_total) (rule hashcat_line_total)
  have j: "\<exists>r. parse_john_benchmark output = Inr r"
    unfolding parse_john_benchmark_def by (rule for_lines_total) (rule john_line_total)
  have hf: "parse_hashcat_benchmark output =
     for_lines hashcat_line [] (filter hashcat_matches (py_split_on (CHR 0x0A) output))"
    unfolding parse_hashcat_benchmark_def by (rule for_lines_filter) (rule hashcat_line_unmatched)
  have jf: "parse_john_benchmark output =
     for_lines john_line [] (filter john_matches (py_split_on (CHR 0x0A) output))"
    unfolding parse_john_benchmark_def by (rule for_lines_filter) (rule john_line_unmatched)
  show ?thesis
    using h j hf jf hashcat_line_unmatched john_line_unmatched by blast
qed

text \<open>The statement of C3 at a text with bytes outside ASCII and at a line that matches
  neither grammar although it holds both unit markers, a mode code and a colon.\<close>

theorem C3_parsers_total_witness:
  "(\<exists>r. parse_hashcat_benchmark (CHR 0x00 # CHR 0xFF # ''0 H/s 0\<newline>: 7 k c/s\<newline>'') = Inr r) \<and>
   (\<exists>r. parse_john_benchmark (CHR 0x00 # CHR 0xFF # ''0 H/s 0\<newline>: 7 k c/s\<newline>'') = Inr r) \<and>
   \<not> hashcat_matches ''H/s 0 x: c/s'' \<and>
   hashcat_line [(''MD5'', \<lparr>speed = Fin 1, speed_formatted = ''1 H/s''\<rparr>)] ''H/s 0 x: c/s'' =
     Inr [(''MD5'', \<lparr>speed = Fin 1, speed_formatted = ''1 H/s''\<rparr>)] \<and>
   \<not> john_matches ''H/s 0 x: c/s'' \<and>
   john_line [(''MD5'', \<lparr>speed = Fin 1, speed_formatted = ''1 H/s''\<rparr>)] ''H/s 0 x: c/s'' =
     Inr [(''MD5'', \<lparr>speed = Fin 1, speed_formatted = ''1 H/s''\<rparr>)]"
proof -
  have a: "\<not> hashcat_matches ''H/s 0 x: c/s''"
    by (simp add: hashcat_matches_def unit_token_def hashcat_defs char_class_defs)
  have b: "\<not> john_matches ''H/s 0 x: c/s''"
    by (simp add: john_matches_def john_defs char_class_defs)
  show ?thesis
    using a b
      C3_parsers_total[of "CHR 0x00 # CHR 0xFF # ''0 H/s 0\<newline>: 7 k c/s\<newline>''" "''H/s 0 x: c/s''"
        "[(''MD5'', \<lparr>speed = Fin 1, speed_formatted = ''1 H/s''\<rparr>)]"]
    by blast
qed

section \<open>Mode codes among the tokens of a line\<close>



section \<open>Grammar B on the Raw-MD5 line\<close>


lemma for_lines_append:
  "for_lines body res (pre @ ls) =
     (case for_lines body res pre of Inl e \<Rightarrow> Inl e | Inr r \<Rightarrow> for_lines body r ls)"
  by (induction pre arbitrary: res) (auto split: sum.splits)

lemma py_split_on_nonempty: "py_split_on sep s \<noteq> []"
  by (induction s) (auto split: list.splits)

lemma py_index_0: "xs \<noteq> [] \<Longrightarrow> py_index xs 0 = Inr (hd xs)"
  by (cases xs) (simp_all add: py_index_def)

lemma john_line_other_label:
  assumes "john_line res l = Inr res'" and "\<not> john_matches l \<or> john_label l \<noteq> k"
  shows "map_of res' k = map_of res k"
proof (cases "john_matches l")
  case False
  then show ?thesis using assms(1) john_line_unmatched[of l res] by simp
next
  case True
  with assms(2) have k: "john_label l \<noteq> k" by simp
  show ?thesis
    using assms(1) k
    by (auto simp: john_line_def john_label_def Let_def py_index_0 py_split_on_nonempty update_conv'
        split: if_splits sum.splits option.splits prod.splits)
qed

lemma for_lines_john_other_label:
  "for_lines john_line res ls = Inr r \<Longrightarrow>
   list_all (\<lambda>l. \<not> john_matches l \<or> john_label l \<noteq> k) ls \<Longrightarrow>
   map_of r k = map_of res k"
proof (induction ls arbitrary: res)
  case Nil
  then show ?case by simp
next
  case (Cons l ls)
  from Cons.prems(1) obtain res' where l: "john_line res l = Inr res'"
    and rest: "for_lines john_line res' ls = Inr r"
    by (auto split: sum.splits)
  have "map_of res' k = map_of res k"
    using john_line_other_label[OF l] Cons.prems(2) by simp
  moreover have "map_of r k = map_of res' k"
    using Cons.IH[OF rest] Cons.prems(2) by simp
  ultimately show ?case by simp
qed

lemma john_line_raw_md5:
  "john_line res raw_md5_line =
     Inr (AList.update ''Raw-MD5'' \<lparr>speed = Fin 3456, speed_formatted = ''3456 c/s''\<rparr> res)"
  by (simp add: raw_md5_line_def john_defs char_class_defs float_defs speed_defs)
    (simp add: double_defs)

text \<open>
  C9, as stated: every input text containing the line
  \<^verbatim>\<open>Raw-MD5 : 3456 c/s real, 3456 c/s virtual\<close> gives \<^verbatim>\<open>Raw-MD5\<close> the rate 3456.0 and the
  display string \<^verbatim>\<open>3456 c/s\<close>. The mapping is a dict, so a later matching line with the
  same label replaces the entry: the text below contains the line and gives Raw-MD5 the
  rate 1.0.
\<close>

theorem C9_later_line_overwrites:
  "raw_md5_line \<in> set (py_split_on (CHR 0x0A) (raw_md5_line @ ''\<newline>Raw-MD5 : 1 c/s'')) \<and>
   parse_john_benchmark (raw_md5_line @ ''\<newline>Raw-MD5 : 1 c/s'') =
     Inr [(''Raw-MD5'', \<lparr>speed = Fin 1, speed_formatted = ''1 c/s''\<rparr>)]"
  by (simp add: raw_md5_line_def john_defs char_class_defs float_defs speed_defs)
    (simp add: double_defs)

text \<open>
  C9, amended: for every input text containing that line in which no later line that
  matches grammar B has the label \<^verbatim>\<open>Raw-MD5\<close> (the text before its first colon,
  trimmed), \<^verbatim>\<open>parse_john_benchmark\<close> returns a mapping whose \<^verbatim>\<open>Raw-MD5\<close> entry has the rate
  3456.0 and the display string \<^verbatim>\<open>3456 c/s\<close>.
\<close>

theorem C9_john_raw_md5_entry:
  "py_split_on (CHR 0x0A) output = pre @ [raw_md5_line] @ post \<and>
   list_all (\<lambda>l. \<not> john_matches l \<or> john_label l \<noteq> ''Raw-MD5'') post
   \<longrightarrow> (\<exists>r. parse_john_benchmark output = Inr r \<and>
          map_of r ''Raw-MD5'' = Some \<lparr>speed = Fin 3456, speed_formatted = ''3456 c/s''\<rparr>)"
proof
  assume a: "py_split_on (CHR 0x0A) output = pre @ [raw_md5_line] @ post \<and>
   list_all (\<lambda>l. \<not> john_matches l \<or> john_label l \<noteq> ''Raw-MD5'') post"
  obtain r0 where r0: "for_lines john_line [] pre = Inr r0"
    using for_lines_total[of john_line "[]" pre] john_line_total by blast
  let ?r1 = "AList.update ''Raw-MD5'' \<lparr>speed = Fin 3456, speed_formatted = ''3456 c/s''\<rparr> r0"
  obtain r where r: "for_lines john_line ?r1 post = Inr r"
    using for_lines_total[of john_line ?r1 post] john_line_total by blast
  have "parse_john_benchmark output = Inr r"
    using a r0 r by (simp add: parse_john_benchmark_def for_lines_append john_line_raw_md5)
  moreover have "map_of r ''Raw-MD5'' = map_of ?r1 ''Raw-MD5''"
    using for_lines_john_other_label[OF r] a by simp
  ultimately show "\<exists>r. parse_john_benchmark output = Inr r \<and>
          map_of r ''Raw-MD5'' = Some \<lparr>speed = Fin 3456, speed_formatted = ''3456 c/s''\<rparr>"
    by (simp add: update_conv')
qed

text \<open>The amended C9 at a text with a line before it, and after it a line with the same
  label that does not match and a matching line with another label.\<close>

theorem C9_john_raw_md5_entry_witness:
  "py_split_on (CHR 0x0A) (''x\<newline>'' @ raw_md5_line @ ''\<newline>Raw-MD5 : fast\<newline>MD4 : 7K c/s'') =
     [''x''] @ [raw_md5_line] @ [''Raw-MD5 : fast'', ''MD4 : 7K c/s''] \<and>
   list_all (\<lambda>l. \<not> john_matches l \<or> john_label l \<noteq> ''Raw-MD5'') [''Raw-MD5 : fast'', ''MD4 : 7K c/s''] \<and>
   (\<exists>r. parse_john_benchmark (''x\<newline>'' @ raw_md5_line @ ''\<newline>Raw-MD5 : fast\<newline>MD4 : 7K c/s'') = Inr r \<and>
        map_of r ''Raw-MD5'' = Some \<lparr>speed = Fin 3456, speed_formatted = ''3456 c/s''\<rparr>)"
proof -
  have a: "py_split_on (CHR 0x0A) (''x\<newline>'' @ raw_md5_line @ ''\<newline>Raw-MD5 : fast\<newline>MD4 : 7K c/s'') =
     [''x''] @ [raw_md5_line] @ [''Raw-MD5 : fast'', ''MD4 : 7K c/s'']"
    by (simp add: raw_md5_line_def)
  have b: "list_all (\<lambda>l. \<not> john_matches l \<or> john_label l \<noteq> ''Raw-MD5'') [''Raw-MD5 : fast'', ''MD4 : 7K c/s'']"
    by (simp add: john_matches_def john_label_def john_defs char_class_defs)
  show ?thesis
    using a b C9_john_raw_md5_entry[THEN mp, OF conjI[OF a b]] by blast
qed

section \<open>The speed-string normalisers on decimal numerals\<close>


lemma digit_facts:
  assumes "is_digit c"
  shows "lower_char c = c" "\<not> float_space c" "c \<noteq> CHR ''_''" "c \<noteq> CHR ''-''" "c \<noteq> CHR ''+''"
    "c \<noteq> CHR ''.''" "c \<notin> fst ` set hashcat_multipliers" "c \<notin> fst ` set john_multipliers"
    "c \<noteq> CHR ''i''" "c \<noteq> CHR ''n''"
  using assms
  by (auto simp: is_digit_def lower_char_def float_space_def hashcat_multipliers_def john_multipliers_def)

lemma float_strip_id:
  "s \<noteq> [] \<Longrightarrow> \<not> float_space (hd s) \<Longrightarrow> \<not> float_space (last s) \<Longrightarrow> float_strip s = s"
proof -
  assume a: "s \<noteq> []" "\<not> float_space (hd s)" "\<not> float_space (last s)"
  have 1: "dropWhile float_space s = s"
    using a by (simp add: dropWhile_eq_self_iff)
  have 2: "dropWhile float_space (rev s) = rev s"
    using a by (simp add: dropWhile_eq_self_iff hd_rev)
  show ?thesis by (simp add: float_strip_def 1 2)
qed

lemma underscores_ok_none:
  "CHR ''_'' \<notin> set s \<Longrightarrow> prev \<noteq> CHR ''_'' \<Longrightarrow> underscores_ok prev s"
  by (induction s arbitrary: prev) auto

lemma underscores_ok_trailing: "\<not> underscores_ok prev (s @ ''_'')"
  by (induction s arbitrary: prev) auto

lemma nat_of_digits_foldl:
  "foldl (\<lambda>a c. 10 * a + digit_val c) a ds = a * 10 ^ length ds + nat_of_digits ds"
proof (induction ds arbitrary: a)
  case Nil
  then show ?case by (simp add: nat_of_digits_def)
next
  case (Cons d ds)
  have "foldl (\<lambda>a c. 10 * a + digit_val c) a (d # ds) =
        (10 * a + digit_val d) * 10 ^ length ds + nat_of_digits ds"
    using Cons.IH[of "10 * a + digit_val d"] by simp
  moreover have "nat_of_digits (d # ds) = digit_val d * 10 ^ length ds + nat_of_digits ds"
    using Cons.IH[of "digit_val d"] by (simp add: nat_of_digits_def)
  ultimately show ?case by (simp add: algebra_simps)
qed

lemma nat_of_digits_append:
  "nat_of_digits (ip @ fp) = nat_of_digits ip * 10 ^ length fp + nat_of_digits fp"
  using nat_of_digits_foldl[of "nat_of_digits ip" fp] by (simp add: nat_of_digits_def)

lemma float_exponent_single:
  "float_exponent [c] = None"
  by (simp add: float_exponent_def)

lemma not_word:
  assumes "u \<noteq> []" "is_digit (hd u)"
  shows "py_lower u \<noteq> ''inf''" "py_lower u \<noteq> ''infinity''" "py_lower u \<noteq> ''nan''"
  using assms digit_facts(1,9,10)[of "hd u"] by (cases u; auto simp: py_lower_def)+

text \<open>\<open>float_unsigned\<close> on digits, an optional fraction, and a tail that is empty or one
  character.\<close>

lemma float_unsigned_int:
  assumes "list_all is_digit ip" "ip \<noteq> []" "t = [] \<or> (\<exists>c. t = [c] \<and> \<not> is_digit c \<and> c \<noteq> CHR ''.'')"
  shows "float_unsigned (ip @ t) = (if t = [] then Some (to_double (of_nat (nat_of_digits ip))) else None)"
proof -
  have tw: "takeWhile is_digit (ip @ t) = ip" "dropWhile is_digit (ip @ t) = t"
    "takeWhile is_digit ip = ip" "dropWhile is_digit ip = []"
    using assms by (auto simp: list_all_iff takeWhile_append2 dropWhile_append2)
  have "ip @ t \<noteq> []" "is_digit (hd (ip @ t))" using assms by (cases ip; simp)+
  note nw = not_word[OF this]
  show ?thesis
    using assms(2,3) nw
    by (auto simp: float_unsigned_def tw Let_def float_exponent_def scale10_def)
qed

lemma float_unsigned_frac:
  assumes "list_all is_digit ip" "ip \<noteq> []" "list_all is_digit fp" "fp \<noteq> []"
    "t = [] \<or> (\<exists>c. t = [c] \<and> \<not> is_digit c)"
  shows "float_unsigned (ip @ CHR ''.'' # fp @ t) =
     (if t = [] then Some (to_double (of_nat (nat_of_digits (ip @ fp)) / 10 ^ length fp))
      else None)"
proof -
  have nd: "\<not> is_digit CHR ''.''" by (simp add: is_digit_def)
  have tw: "takeWhile is_digit (ip @ CHR ''.'' # fp @ t) = ip"
    "dropWhile is_digit (ip @ CHR ''.'' # fp @ t) = CHR ''.'' # fp @ t"
    using assms(1) nd by (auto simp: list_all_iff takeWhile_append2 dropWhile_append2)
  have tw2: "takeWhile is_digit (fp @ t) = fp" "dropWhile is_digit (fp @ t) = t"
    "takeWhile is_digit fp = fp" "dropWhile is_digit fp = []"
    using assms(3,5) by (auto simp: list_all_iff takeWhile_append2 dropWhile_append2)
  have "ip @ CHR ''.'' # fp @ t \<noteq> []" "is_digit (hd (ip @ CHR ''.'' # fp @ t))"
    using assms by (cases ip; simp)+
  note nw = not_word[OF this]
  show ?thesis
    using assms(2,4,5) nw
    by (auto simp: float_unsigned_def tw tw2 Let_def float_exponent_def scale10_def)
qed

lemma decimal_numeral_cases:
  assumes "decimal_numeral d"
  obtains (whole) "list_all is_digit d" "d \<noteq> []" "decimal_value d = of_nat (nat_of_digits d)"
  | (frac) ip fp where "d = ip @ CHR ''.'' # fp" "list_all is_digit ip" "ip \<noteq> []"
      "list_all is_digit fp" "fp \<noteq> []"
      "decimal_value d = of_nat (nat_of_digits (ip @ fp)) / 10 ^ length fp"
proof -
  let ?ip = "takeWhile is_digit d" and ?r = "dropWhile is_digit d"
  have d: "d = ?ip @ ?r" by simp
  have ip: "list_all is_digit ?ip" "?ip \<noteq> []"
    using assms by (auto simp: decimal_numeral_def list_all_iff dest: set_takeWhileD)
  show thesis
  proof (cases "?r = []")
    case True
    have e: "takeWhile is_digit d = d"
      using takeWhile_dropWhile_id[of is_digit d] True by simp
    have dv: "decimal_value d = of_nat (nat_of_digits d)"
      unfolding decimal_value_def e True by (simp add: nat_of_digits_def)
    show ?thesis using ip[unfolded e] dv by (rule whole)
  next
    case False
    let ?fp = "drop 1 ?r"
    from False assms have r: "?r = CHR ''.'' # ?fp" "?fp \<noteq> []" "list_all is_digit ?fp"
      by (cases ?r; simp add: decimal_numeral_def)+
    have dd: "d = ?ip @ CHR ''.'' # ?fp" using d r(1) by simp
    have dv: "decimal_value d = of_nat (nat_of_digits (?ip @ ?fp)) / 10 ^ length ?fp"
      by (simp add: decimal_value_def nat_of_digits_append add_divide_distrib)
    show ?thesis by (rule frac[OF dd ip(1) ip(2) r(3) r(2) dv])
  qed
qed

lemma decimal_shape_conj:
  assumes "decimal_numeral d"
  shows "d \<noteq> [] \<and> is_digit (hd d) \<and> is_digit (last d) \<and> CHR ''_'' \<notin> set d"
  using assms
proof (cases rule: decimal_numeral_cases)
  case whole
  then show ?thesis
    using digit_facts(3) by (cases d) (auto simp: list_all_iff)
next
  case (frac ip fp)
  have "is_digit (last fp)" using frac(4,5) by (simp add: list_all_iff)
  moreover have "is_digit (hd ip)" using frac(2,3) by (cases ip) simp_all
  ultimately show ?thesis
    using frac digit_facts(3) by (auto simp: list_all_iff)
qed

lemma decimal_shape:
  assumes "decimal_numeral d"
  shows "d \<noteq> []" "is_digit (hd d)" "is_digit (last d)" "CHR ''_'' \<notin> set d"
  using decimal_shape_conj[OF assms] by simp_all

lemma float_unsigned_decimal:
  assumes "decimal_numeral d"
  shows "float_unsigned d = Some (to_double (decimal_value d))"
  using assms
proof (cases rule: decimal_numeral_cases)
  case whole
  then show ?thesis using float_unsigned_int[of d "[]"] by simp
next
  case (frac ip fp)
  then show ?thesis using float_unsigned_frac[of ip fp "[]"] by simp
qed

lemma float_unsigned_decimal_junk:
  assumes "decimal_numeral d" "\<not> is_digit c" "c \<noteq> CHR ''.''"
  shows "float_unsigned (d @ [c]) = None"
  using assms(1)
proof (cases rule: decimal_numeral_cases)
  case whole
  then show ?thesis using float_unsigned_int[of d "[c]"] assms by simp
next
  case (frac ip fp)
  then show ?thesis using float_unsigned_frac[of ip fp "[c]"] assms by simp
qed

lemma py_float_plain:
  assumes "float_strip s = s" "underscores_ok (CHR 0x00) s" "filter (\<lambda>c. c \<noteq> CHR ''_'') s = s"
    "s \<noteq> []" "hd s \<noteq> CHR ''-''" "hd s \<noteq> CHR ''+''"
  shows "py_float s = (case float_unsigned s of None \<Rightarrow> Inl ValueError | Some v \<Rightarrow> Inr v)"
proof -
  obtain a u where s: "s = a # u" using assms(4) by (cases s) auto
  have "(case filter (\<lambda>c. c \<noteq> CHR ''_'') s of [] \<Rightarrow> None
          | c # u' \<Rightarrow> if c = CHR ''-'' then map_option pf_neg (float_unsigned u')
                     else if c = CHR ''+'' then float_unsigned u' else float_unsigned (filter (\<lambda>c. c \<noteq> CHR ''_'') s))
        = float_unsigned s"
    unfolding assms(3) using assms(5,6) s by simp
  then show ?thesis
    unfolding py_float_def Let_def assms(1) using assms(2) by simp
qed

lemma py_float_decimal:
  assumes "decimal_numeral d"
  shows "py_float d = Inr (to_double (decimal_value d))"
proof -
  note sh = decimal_shape[OF assms]
  have st: "float_strip d = d"
    using sh digit_facts(2) by (intro float_strip_id) auto
  have us: "underscores_ok (CHR 0x00) d" using sh by (intro underscores_ok_none) auto
  have fl: "filter (\<lambda>c. c \<noteq> CHR ''_'') d = d" using sh by (auto simp: filter_id_conv)
  have hd: "hd d \<noteq> CHR ''-''" "hd d \<noteq> CHR ''+''" using sh digit_facts(4,5) by auto
  show ?thesis
    using py_float_plain[OF st us fl sh(1) hd] float_unsigned_decimal[OF assms] by simp
qed

lemma py_float_decimal_junk:
  assumes "decimal_numeral d" "\<not> is_digit c" "c \<noteq> CHR ''.''" "\<not> float_space c"
  shows "py_float (d @ [c]) = Inl ValueError"
proof (cases "c = CHR ''_''")
  case True
  have "float_strip (d @ [c]) = d @ [c]"
    using decimal_shape[OF assms(1)] digit_facts(2) assms(4) by (intro float_strip_id) auto
  then show ?thesis
    using True underscores_ok_trailing[of "CHR 0x00" d] by (simp add: py_float_def)
next
  case False
  note sh = decimal_shape[OF assms(1)]
  have st: "float_strip (d @ [c]) = d @ [c]"
    using sh digit_facts(2) assms(4) by (intro float_strip_id) auto
  have us: "underscores_ok (CHR 0x00) (d @ [c])" using sh False by (intro underscores_ok_none) auto
  have fl: "filter (\<lambda>c. c \<noteq> CHR ''_'') (d @ [c]) = d @ [c]"
    using sh False by (auto simp: filter_id_conv)
  have hd: "hd (d @ [c]) \<noteq> CHR ''-''" "hd (d @ [c]) \<noteq> CHR ''+''" "d @ [c] \<noteq> []"
    using sh digit_facts(4,5) by auto
  show ?thesis
    using py_float_plain[OF st us fl hd(3) hd(1,2)] float_unsigned_decimal_junk[OF assms(1-3)]
    by simp
qed

lemma py_index_last: "py_index (d @ [c]) (- 1) = Inr c"
  by (simp add: py_index_def nth_append)

lemma py_index_last_nonempty: "d \<noteq> [] \<Longrightarrow> py_index d (- 1) = Inr (last d)"
  using py_index_last[of "butlast d" "last d"] by simp

lemma parse_speed_suffix:
  assumes "decimal_numeral d" "map_of multipliers c = Some m"
  shows "parse_speed multipliers (d @ [c]) = Inr (pf_mult (to_double (decimal_value d)) (Fin m))"
proof -
  have "c \<in> fst ` set multipliers"
    using assms(2) by (metis map_of_SomeD image_eqI fst_conv)
  then show ?thesis
    using assms(2) py_float_decimal[OF assms(1)]
    by (simp add: parse_speed_def speed_try_def py_index_last py_getitem_def)
qed

lemma parse_speed_bare:
  assumes "decimal_numeral d" "last d \<notin> fst ` set multipliers"
  shows "parse_speed multipliers d = Inr (to_double (decimal_value d))"
  using assms(2) py_float_decimal[OF assms(1)] decimal_shape(1)[OF assms(1)]
  by (simp add: parse_speed_def speed_try_def py_index_last_nonempty)

lemma parse_speed_junk:
  assumes "decimal_numeral d" "\<not> is_digit c" "c \<noteq> CHR ''.''" "\<not> float_space c"
    "c \<notin> fst ` set multipliers"
  shows "parse_speed multipliers (d @ [c]) = Inr (Fin 0)"
  using assms(5) py_float_decimal_junk[OF assms(1-4)]
  by (simp add: parse_speed_def speed_try_def py_index_last)

lemma parse_speed_empty: "parse_speed multipliers [] = Inr (Fin 0)"
  by (simp add: parse_speed_def speed_try_def py_index_def)

lemma parse_speed_keyed:
  assumes "s \<noteq> []" "map_of multipliers (last s) = Some m"
  shows "parse_speed multipliers s =
     (case py_float (butlast s) of Inl e \<Rightarrow> Inr (Fin 0) | Inr v \<Rightarrow> Inr (pf_mult v (Fin m)))"
proof -
  have "last s \<in> fst ` set multipliers"
    using assms(2) by (metis map_of_SomeD image_eqI fst_conv)
  then show ?thesis
    using assms
    by (simp add: parse_speed_def speed_try_def py_index_last_nonempty py_getitem_def
        split: sum.splits)
qed

lemma parse_speed_unkeyed:
  assumes "s \<noteq> []" "last s \<notin> fst ` set multipliers"
  shows "parse_speed multipliers s =
     (case py_float s of Inl e \<Rightarrow> Inr (Fin 0) | Inr v \<Rightarrow> Inr v)"
  using assms
  by (simp add: parse_speed_def speed_try_def py_index_last_nonempty split: sum.splits)

text \<open>
  C1, as stated: a decimal numeral followed by a suffix of the tool's table gives the
  numeral's value times the multiplier, a bare numeral gives its value, and every other
  input string gives 0.0 without raising. The last part fails: \<^verbatim>\<open>float()\<close> accepts more
  than decimal numerals, and what it accepts is returned. The strings \<^verbatim>\<open>inf\<close> and \<^verbatim>\<open>-5\<close>
  are neither a decimal numeral nor one followed by a suffix, and both normalisers
  return infinity and -5.0 on them.
\<close>

theorem C1_float_accepts_more:
  "\<not> decimal_numeral ''inf'' \<and> \<not> decimal_numeral ''in'' \<and>
   parse_hashcat_speed ''inf'' = Inr PInf \<and> parse_john_speed ''inf'' = Inr PInf \<and>
   \<not> decimal_numeral ''-5'' \<and> \<not> decimal_numeral ''-'' \<and>
   parse_hashcat_speed ''-5'' = Inr (Fin (- 5)) \<and> parse_john_speed ''-5'' = Inr (Fin (- 5))"
  by (simp add: decimal_numeral_def float_defs char_class_defs speed_defs)
    (simp add: double_defs)

text \<open>
  C1, amended. Both normalisers compute in doubles: \<^verbatim>\<open>float()\<close> rounds what it reads to
  the nearest double, and the product with the multiplier is rounded again. For a
  decimal numeral \<open>d\<close> and a suffix of the tool-scoped, case-sensitive table,
  \<^verbatim>\<open>parse_hashcat_speed\<close> (resp. \<^verbatim>\<open>parse_john_speed\<close>) returns the double of \<open>d\<close> times the
  multiplier; on \<open>d\<close> alone it returns the double of \<open>d\<close>; on the empty string, and on \<open>d\<close>
  followed by a character that is neither in the table nor a digit, a point or
  whitespace that \<^verbatim>\<open>float()\<close> strips, it returns 0.0. On every other string the result is
  fixed by \<^verbatim>\<open>float()\<close>: when the last character is a key of the table, it is \<^verbatim>\<open>float()\<close> of
  the rest times the multiplier if \<^verbatim>\<open>float()\<close> accepts the rest, and 0.0 if not; when the
  last character is not a key, it is \<^verbatim>\<open>float()\<close> of the whole string if \<^verbatim>\<open>float()\<close> accepts
  it, and 0.0 if not. On no input does either function raise.
\<close>

theorem C1_speed_normalisers:
  "(decimal_numeral d \<and> map_of hashcat_multipliers c1 = Some m1
      \<longrightarrow> parse_hashcat_speed (d @ [c1]) =
            Inr (pf_mult (to_double (decimal_value d)) (Fin m1))) \<and>
   (decimal_numeral d \<and> map_of john_multipliers c2 = Some m2
      \<longrightarrow> parse_john_speed (d @ [c2]) =
            Inr (pf_mult (to_double (decimal_value d)) (Fin m2))) \<and>
   (decimal_numeral d
      \<longrightarrow> parse_hashcat_speed d = Inr (to_double (decimal_value d)) \<and>
          parse_john_speed d = Inr (to_double (decimal_value d))) \<and>
   parse_hashcat_speed [] = Inr (Fin 0) \<and> parse_john_speed [] = Inr (Fin 0) \<and>
   (decimal_numeral d \<and> \<not> is_digit c3 \<and> c3 \<noteq> CHR ''.'' \<and> \<not> float_space c3 \<and>
    c3 \<notin> fst ` set hashcat_multipliers
      \<longrightarrow> parse_hashcat_speed (d @ [c3]) = Inr (Fin 0)) \<and>
   (decimal_numeral d \<and> \<not> is_digit c4 \<and> c4 \<noteq> CHR ''.'' \<and> \<not> float_space c4 \<and>
    c4 \<notin> fst ` set john_multipliers
      \<longrightarrow> parse_john_speed (d @ [c4]) = Inr (Fin 0)) \<and>
   (s1 \<noteq> [] \<and> map_of hashcat_multipliers (last s1) = Some m3
      \<longrightarrow> parse_hashcat_speed s1 =
            (case py_float (butlast s1) of
               Inl e \<Rightarrow> Inr (Fin 0) | Inr v \<Rightarrow> Inr (pf_mult v (Fin m3)))) \<and>
   (s2 \<noteq> [] \<and> last s2 \<notin> fst ` set hashcat_multipliers
      \<longrightarrow> parse_hashcat_speed s2 =
            (case py_float s2 of Inl e \<Rightarrow> Inr (Fin 0) | Inr v \<Rightarrow> Inr v)) \<and>
   (s3 \<noteq> [] \<and> map_of john_multipliers (last s3) = Some m4
      \<longrightarrow> parse_john_speed s3 =
            (case py_float (butlast s3) of
               Inl e \<Rightarrow> Inr (Fin 0) | Inr v \<Rightarrow> Inr (pf_mult v (Fin m4)))) \<and>
   (s4 \<noteq> [] \<and> last s4 \<notin> fst ` set john_multipliers
      \<longrightarrow> parse_john_speed s4 =
            (case py_float s4 of Inl e \<Rightarrow> Inr (Fin 0) | Inr v \<Rightarrow> Inr v)) \<and>
   (\<exists>v. parse_hashcat_speed s = Inr v) \<and> (\<exists>v. parse_john_speed s = Inr v)"
proof -
  have bare: "parse_speed hashcat_multipliers d = Inr (to_double (decimal_value d)) \<and>
      parse_speed john_multipliers d = Inr (to_double (decimal_value d))" if "decimal_numeral d"
    using parse_speed_bare[OF that] decimal_shape(3)[OF that] digit_facts(7,8)
    by simp
  show ?thesis
    unfolding parse_hashcat_speed_def parse_john_speed_def
    using parse_speed_suffix parse_speed_junk parse_speed_empty parse_speed_keyed
      parse_speed_unkeyed parse_speed_total bare
    by (intro conjI impI) blast+
qed

text \<open>The amended C1 at \<^verbatim>\<open>12.4\<close> with the suffixes \<^verbatim>\<open>M\<close> and \<^verbatim>\<open>K\<close>, at the suffix of the
  other tool's table (\<^verbatim>\<open>K\<close> for hashcat, \<^verbatim>\<open>k\<close> for John), and at four strings that are not
  numerals: \<^verbatim>\<open>-5k\<close> and \<^verbatim>\<open>infx\<close> for hashcat, \<^verbatim>\<open>infG\<close> and \<^verbatim>\<open>1e3\<close> for John.\<close>

theorem C1_speed_normalisers_witness:
  "decimal_numeral ''12.4'' \<and>
   map_of hashcat_multipliers (CHR ''M'') = Some 1000000 \<and>
   parse_hashcat_speed ''12.4M'' = Inr (Fin 12400000) \<and>
   map_of john_multipliers (CHR ''K'') = Some 1000 \<and>
   parse_john_speed ''12.4K'' = Inr (Fin 12400) \<and>
   parse_hashcat_speed ''12.4'' = Inr (Fin (6980579422424269 / 562949953421312)) \<and>
   parse_john_speed ''12.4'' = Inr (Fin (6980579422424269 / 562949953421312)) \<and>
   CHR ''K'' \<notin> fst ` set hashcat_multipliers \<and> parse_hashcat_speed ''12.4K'' = Inr (Fin 0) \<and>
   CHR ''k'' \<notin> fst ` set john_multipliers \<and> parse_john_speed ''12.4k'' = Inr (Fin 0) \<and>
   map_of hashcat_multipliers (last ''-5k'') = Some 1000 \<and>
   py_float (butlast ''-5k'') = Inr (Fin (- 5)) \<and>
   parse_hashcat_speed ''-5k'' = Inr (Fin (- 5000)) \<and>
   last ''infx'' \<notin> fst ` set hashcat_multipliers \<and> py_float ''infx'' = Inl ValueError \<and>
   parse_hashcat_speed ''infx'' = Inr (Fin 0) \<and>
   map_of john_multipliers (last ''infG'') = Some 1000000000 \<and>
   py_float (butlast ''infG'') = Inr PInf \<and>
   parse_john_speed ''infG'' = Inr PInf \<and>
   last ''1e3'' \<notin> fst ` set john_multipliers \<and> py_float ''1e3'' = Inr (Fin 1000) \<and>
   parse_john_speed ''1e3'' = Inr (Fin 1000)"
proof -
  have d: "decimal_numeral ''12.4''" "decimal_value ''12.4'' = 62 / 5"
    by (simp_all add: decimal_numeral_def decimal_value_def is_digit_def nat_of_digits_def digit_val_def)
  have m: "map_of hashcat_multipliers (CHR ''M'') = Some 1000000"
    "map_of john_multipliers (CHR ''K'') = Some 1000"
    "CHR ''K'' \<notin> fst ` set hashcat_multipliers" "CHR ''k'' \<notin> fst ` set john_multipliers"
    "map_of hashcat_multipliers (last ''-5k'') = Some 1000"
    "last ''infx'' \<notin> fst ` set hashcat_multipliers"
    "map_of john_multipliers (last ''infG'') = Some 1000000000"
    "last ''1e3'' \<notin> fst ` set john_multipliers"
    by (simp_all add: hashcat_multipliers_def john_multipliers_def)
  have c: "\<not> is_digit (CHR ''K'')" "CHR ''K'' \<noteq> CHR ''.''" "\<not> float_space (CHR ''K'')"
    "\<not> is_digit (CHR ''k'')" "CHR ''k'' \<noteq> CHR ''.''" "\<not> float_space (CHR ''k'')"
    by (simp_all add: is_digit_def float_space_def)
  have f0: "py_float (butlast ''-5k'') = Inr (pf_neg (to_double 5))"
    "py_float ''1e3'' = Inr (to_double 1000)"
    by (simp_all add: float_defs char_class_defs)
  have r: "to_double 5 = Fin 5" "to_double 1000 = Fin 1000"
    by (simp_all add: double_defs)
  have dv: "to_double (decimal_value ''12.4'') = Fin (6980579422424269 / 562949953421312)"
    unfolding d(2) by (simp add: double_defs)
  have pm: "pf_mult (Fin (6980579422424269 / 562949953421312)) (Fin 1000000) = Fin 12400000"
    "pf_mult (Fin (6980579422424269 / 562949953421312)) (Fin 1000) = Fin 12400"
    "pf_mult (Fin (- 5)) (Fin 1000) = Fin (- 5000)"
    "pf_mult PInf (Fin 1000000000) = PInf"
    by (simp_all add: double_defs)
  have f: "py_float (butlast ''-5k'') = Inr (Fin (- 5))" "py_float ''1e3'' = Inr (Fin 1000)"
    "py_float ''infx'' = Inl ValueError" "py_float (butlast ''infG'') = Inr PInf"
    using f0 r by (simp_all add: float_defs char_class_defs)
  show ?thesis
    using d(1) m c f
      C1_speed_normalisers[of "''12.4''" "CHR ''M''" 1000000 "CHR ''K''" 1000 "CHR ''K''" "CHR ''k''"
        "''-5k''" 1000 "''infx''" "''infG''" 1000000000 "''1e3''"]
    by (simp add: dv pm del: pf_mult.simps)
qed

text \<open>Rounding is visible in the result: \<^verbatim>\<open>1.005k\<close> gives 1004.9999999999999, the double
  \<open>8840073487319039 / 2 ^ 43\<close>, and not 1005.\<close>

lemma parse_hashcat_speed_rounds:
  "parse_hashcat_speed ''1.005k'' = Inr (Fin (8840073487319039 / 8796093022208))"
  by (simp add: float_defs char_class_defs speed_defs)
    (simp add: double_defs)

section \<open>The sign of what float() returns\<close>

lemma scale10_nonneg: "0 \<le> q \<Longrightarrow> 0 \<le> scale10 q k"
  by (simp add: scale10_def)

lemma pow2_pos: "0 < pow2 k"
  by (simp add: pow2_def)

lemma round_half_even_nonneg: "0 \<le> x \<Longrightarrow> 0 \<le> round_half_even x"
  by (simp add: round_half_even_def)

text \<open>Rounding keeps the sign: a non-negative number rounds to a non-negative double or to
  the positive infinity.\<close>

lemma to_double_nonneg:
  assumes "0 \<le> x"
  shows "pf_nonneg (to_double x)"
proof (cases "x = 0")
  case True
  then show ?thesis by (simp add: to_double_def)
next
  case False
  with assms have pos: "0 < x" by simp
  have "0 \<le> \<bar>x\<bar> / pow2 (double_exponent x)"
    using pow2_pos[of "double_exponent x"] by simp
  then have "0 \<le> round_half_even (\<bar>x\<bar> / pow2 (double_exponent x))"
    by (rule round_half_even_nonneg)
  then have "0 \<le> (of_int (round_half_even (\<bar>x\<bar> / pow2 (double_exponent x))) :: rat) *
               pow2 (double_exponent x)"
    using pow2_pos[of "double_exponent x"] by simp
  with pos show ?thesis
    by (simp add: to_double_def mult.assoc)
qed

lemma float_unsigned_sign:
  "float_unsigned u = Some v \<Longrightarrow> pf_nonneg v \<or> (v = NaN \<and> py_lower u = ''nan'')"
  by (auto simp: float_unsigned_def Let_def scale10_nonneg to_double_nonneg
      split: if_splits option.splits)

lemma pf_neg_nan: "pf_neg v = NaN \<longleftrightarrow> v = NaN"
  by (cases v) simp_all

lemma filter_first:
  assumes "underscores_ok (CHR 0x00) x" "filter (\<lambda>c. c \<noteq> CHR ''_'') x = c # u"
  shows "take 1 x = [c]"
proof (cases x)
  case Nil
  with assms(2) show ?thesis by simp
next
  case (Cons a x')
  with assms have "a \<noteq> CHR ''_''" by (auto simp: is_digit_def)
  with assms(2) Cons show ?thesis by simp
qed

lemma no_digit_no_underscore:
  "underscores_ok prev t \<Longrightarrow> list_all (\<lambda>c. \<not> is_digit c) t \<Longrightarrow> CHR ''_'' \<notin> set t"
proof (induction t arbitrary: prev)
  case Nil
  then show ?case by simp
next
  case (Cons c cs)
  show ?case
  proof (cases "c = CHR ''_''")
    case True
    with Cons.prems have "underscores_ok (CHR ''_'') cs" "list_all (\<lambda>c. \<not> is_digit c) cs" by simp_all
    then have False by (cases cs) (auto simp: is_digit_def split: if_splits)
    then show ?thesis ..
  next
    case False
    with Cons show ?thesis by auto
  qed
qed

lemma nan_no_digit:
  assumes "py_lower w = ''nan''"
  shows "list_all (\<lambda>c. \<not> is_digit c) w"
proof -
  have "\<not> is_digit c" if "lower_char c = CHR ''n'' \<or> lower_char c = CHR ''a''" for c
    using that digit_facts(1)[of c] by (auto simp: is_digit_def)
  then show ?thesis
    using assms by (auto simp: py_lower_def list_all_iff)
qed

lemma py_in_here: "py_in sub (sub @ ys)"
proof (cases "sub @ ys")
  case Nil
  then show ?thesis by simp
next
  case (Cons a list)
  then have "take (length sub) (a # list) = sub"
    by (metis append_eq_conv_conj)
  then show ?thesis using Cons by simp
qed

lemma py_in_append: "py_in sub (xs @ sub @ ys)"
  by (induction xs) (auto simp: py_in_here)

lemma py_in_extend: "py_in sub s \<Longrightarrow> py_in sub (s @ t)"
proof (induction s)
  case Nil
  then show ?case using py_in_here[of "[]" t] by simp
next
  case (Cons c cs)
  from Cons.prems have "take (length sub) (c # cs) = sub \<or> py_in sub cs" by simp
  then show ?case
  proof
    assume a: "take (length sub) (c # cs) = sub"
    have "(c # cs) @ t = sub @ (drop (length sub) (c # cs) @ t)"
      using append_take_drop_id[of "length sub" "c # cs"] a
      by (metis append_assoc)
    then show ?thesis
      by (subst \<open>(c # cs) @ t = sub @ (drop (length sub) (c # cs) @ t)\<close>) (rule py_in_here)
  next
    assume "py_in sub cs"
    then show ?thesis using Cons.IH by simp
  qed
qed

lemma py_float_sign:
  assumes "py_float x = Inr v" "float_strip x = x" "\<not> pf_nonneg v"
  shows "take 1 x = ''-'' \<or> py_in ''nan'' (py_lower x)"
proof -
  let ?u = "filter (\<lambda>c. c \<noteq> CHR ''_'') x"
  from assms(1,2) have us: "underscores_ok (CHR 0x00) x"
    by (auto simp: py_float_def Let_def split: if_splits)
  from assms(1,2) us obtain c u where u: "?u = c # u"
    by (cases ?u) (auto simp: py_float_def Let_def)
  have first: "take 1 x = [c]" by (rule filter_first[OF us u])
  show ?thesis
  proof (cases "c = CHR ''-''")
    case True
    with first show ?thesis by simp
  next
    case False
    define w where "w = (if c = CHR ''+'' then u else c # u)"
    from assms(1,2) us u False have fu: "float_unsigned w = Some v"
      by (auto simp: py_float_def Let_def w_def split: if_splits option.splits)
    with assms(3) have nan: "py_lower w = ''nan''"
      using float_unsigned_sign by blast
    then have "list_all (\<lambda>c. \<not> is_digit c) w" by (rule nan_no_digit)
    moreover have "\<not> is_digit (CHR ''+'')" by (simp add: is_digit_def)
    ultimately have "list_all (\<lambda>c. \<not> is_digit c) ?u"
      using u by (auto simp: w_def split: if_splits)
    then have "list_all (\<lambda>c. \<not> is_digit c) x"
      by (auto simp: list_all_iff is_digit_def)
    then have "CHR ''_'' \<notin> set x" using no_digit_no_underscore[OF us] by simp
    then have "?u = x" by (auto simp: filter_id_conv)
    with u have "x = (if c = CHR ''+'' then [c] else []) @ w" by (simp add: w_def)
    then obtain p where "x = p @ w" by blast
    then have "py_lower x = py_lower p @ ''nan'' @ []"
      using nan by (simp add: py_lower_def)
    then show ?thesis using py_in_append[of "''nan''" "py_lower p" "[]"] by simp
  qed
qed

lemma float_strip_no_space: "\<forall>c\<in>set x. \<not> float_space c \<Longrightarrow> float_strip x = x"
proof -
  assume a: "\<forall>c\<in>set x. \<not> float_space c"
  have 1: "dropWhile float_space x = x" using a by (cases x) auto
  have 2: "dropWhile float_space (rev x) = rev x"
    using a by (cases "x = []") (auto simp: dropWhile_eq_self_iff hd_rev)
  show ?thesis by (simp add: float_strip_def 1 2)
qed

lemma pf_mult_pos: "0 < m \<Longrightarrow> pf_nonneg v \<Longrightarrow> pf_nonneg (pf_mult v (Fin m))"
  by (cases v) (auto simp: to_double_nonneg)

lemma parse_speed_sign:
  assumes "parse_speed multipliers t = Inr v" "\<forall>c\<in>set t. \<not> float_space c"
    "\<forall>m\<in>snd ` set multipliers. 0 < m" "\<not> pf_nonneg v"
  shows "minus_or_nan t"
proof -
  from assms(1,4) obtain v' where st: "speed_try multipliers t = Inr v'" "v' = v"
    by (auto simp: parse_speed_def split: sum.splits)
  then have ne: "t \<noteq> []" by (auto simp: speed_try_def py_index_def)
  show ?thesis
  proof (cases "last t \<in> fst ` set multipliers")
    case False
    with st ne have "py_float t = Inr v"
      by (simp add: speed_try_def py_index_last_nonempty)
    from py_float_sign[OF this float_strip_no_space[OF assms(2)] assms(4)]
    show ?thesis by (simp add: minus_or_nan_def)
  next
    case True
    with st ne obtain v0 m where v0: "py_float (butlast t) = Inr v0"
      and m: "map_of multipliers (last t) = Some m" and v: "v = pf_mult v0 (Fin m)"
      by (auto simp: speed_try_def py_index_last_nonempty py_getitem_def split: sum.splits option.splits)
    from m have "0 < m" using assms(3) by (metis map_of_SomeD image_eqI snd_conv)
    with v assms(4) have nn: "\<not> pf_nonneg v0" using pf_mult_pos by blast
    have "\<forall>c\<in>set (butlast t). \<not> float_space c"
      using assms(2) by (meson in_set_butlastD)
    from py_float_sign[OF v0 float_strip_no_space[OF this] nn]
    have "take 1 (butlast t) = ''-'' \<or> py_in ''nan'' (py_lower (butlast t))" .
    then show ?thesis
    proof
      assume "take 1 (butlast t) = ''-''"
      then have "take 1 t = ''-''"
        using ne by (cases "butlast t"; cases t) (auto split: if_splits)
      then show ?thesis by (simp add: minus_or_nan_def)
    next
      assume "py_in ''nan'' (py_lower (butlast t))"
      then have "py_in ''nan'' (py_lower (butlast t) @ py_lower [last t])" by (rule py_in_extend)
      moreover have "py_lower (butlast t) @ py_lower [last t] = py_lower t"
        unfolding py_lower_def using ne by (metis append_butlast_last_id map_append)
      ultimately show ?thesis by (simp add: minus_or_nan_def)
    qed
  qed
qed

section \<open>Rates recorded by the parsers\<close>

lemma split_ws_from_tokens:
  "\<forall>c\<in>set w. \<not> is_space c \<Longrightarrow> t \<in> set (split_ws_from w s) \<Longrightarrow> \<forall>c\<in>set t. \<not> is_space c"
proof (induction s arbitrary: w)
  case Nil
  then show ?case by (cases "w = []") auto
next
  case (Cons a s)
  show ?case
  proof (cases "is_space a")
    case False
    then have "t \<in> set (split_ws_from (a # w) s)" using Cons.prems(2) by simp
    moreover have "\<forall>c\<in>set (a # w). \<not> is_space c" using False Cons.prems(1) by simp
    ultimately show ?thesis by (rule Cons.IH[rotated])
  next
    case True
    have e: "\<forall>c\<in>set ([]::string). \<not> is_space c" by simp
    show ?thesis
    proof (cases "w = []")
      case True
      with \<open>is_space a\<close> Cons.prems(2) have "t \<in> set (split_ws_from [] s)" by simp
      with e show ?thesis by (rule Cons.IH)
    next
      case False
      with \<open>is_space a\<close> Cons.prems(2) have "t = rev w \<or> t \<in> set (split_ws_from [] s)" by simp
      then show ?thesis
      proof
        assume "t = rev w"
        then show ?thesis using Cons.prems(1) by simp
      next
        assume "t \<in> set (split_ws_from [] s)"
        with e show ?thesis by (rule Cons.IH)
      qed
    qed
  qed
qed

lemma float_space_is_space: "float_space c \<Longrightarrow> is_space c"
  by (auto simp: float_space_def is_space_def)

lemma token_no_float_space:
  assumes "t \<in> set (py_split_ws line)"
  shows "\<forall>c\<in>set t. \<not> float_space c"
proof -
  have e: "\<forall>c\<in>set ([]::string). \<not> is_space c" by simp
  have "t \<in> set (split_ws_from [] line)" using assms by (simp add: py_split_ws_def)
  with e have "\<forall>c\<in>set t. \<not> is_space c" by (rule split_ws_from_tokens)
  then show ?thesis using float_space_is_space by blast
qed

lemma list_all_update:
  "list_all (\<lambda>(k, m). Q m) r \<Longrightarrow> Q m \<Longrightarrow> list_all (\<lambda>(k, m). Q m) (AList.update k m r)"
  by (induction r) auto

lemma for_lines_inv:
  assumes "for_lines body res ls = Inr r" "P res"
    and "\<And>l a b. l \<in> set ls \<Longrightarrow> P a \<Longrightarrow> body a l = Inr b \<Longrightarrow> P b"
  shows "P r"
  using assms
proof (induction ls arbitrary: res)
  case Nil
  then show ?case by simp
next
  case (Cons l ls)
  from Cons.prems(1) obtain res' where l: "body res l = Inr res'"
    and rest: "for_lines body res' ls = Inr r"
    by (auto split: sum.splits)
  have res': "P res'" using Cons.prems(3)[of l res res'] Cons.prems(2) l by simp
  show ?case
  proof (rule Cons.IH[OF rest res'])
    fix l' a b
    assume "l' \<in> set ls" "P a" "body a l' = Inr b"
    then show "P b" using Cons.prems(3)[of l' a b] by simp
  qed
qed

lemma hashcat_multipliers_pos: "\<forall>m\<in>snd ` set hashcat_multipliers. 0 < m"
  by (simp add: hashcat_multipliers_def)

lemma hashcat_line_nonneg:
  assumes "hashcat_line a line = Inr b" "list_all (\<lambda>(k, m). pf_nonneg (speed m)) a"
    and "list_all (\<lambda>t. \<not> minus_or_nan t) (speed_tokens (py_split_ws line))"
  shows "list_all (\<lambda>(k, m). pf_nonneg (speed m)) b"
proof (cases "py_in ''H/s'' line")
  case False
  with assms(1,2) show ?thesis by (simp add: hashcat_line_def)
next
  case True
  let ?parts = "py_split_ws line"
  have b: "b = hashcat_parts ?parts a (enumerate 0 ?parts)"
    using True assms(1) by (simp add: hashcat_line_def Let_def)
  have step: "list_all (\<lambda>(k, m). pf_nonneg (speed m)) (AList.update name m r)"
    if r: "list_all (\<lambda>(k, m). pf_nonneg (speed m)) r" and ok: "speed_token_ok ?parts m" for r name m
  proof -
    from ok obtain j where j: "1 \<le> j" "j < length ?parts" "unit_token ?parts j"
      "parse_hashcat_speed (?parts ! (j - 1)) = Inr (speed m)"
      by (auto simp: speed_token_ok_def list_ex_iff)
    let ?t = "?parts ! (j - 1)"
    have "?t \<in> set (speed_tokens ?parts)"
      using j by (auto simp: speed_tokens_def intro!: image_eqI[of _ _ j])
    then have nm: "\<not> minus_or_nan ?t" using assms(3) by (simp add: list_all_iff)
    have "?t \<in> set ?parts" using j by simp
    then have ns: "\<forall>c\<in>set ?t. \<not> float_space c" by (rule token_no_float_space)
    have "pf_nonneg (speed m)"
      using parse_speed_sign[OF j(4)[unfolded parse_hashcat_speed_def] ns hashcat_multipliers_pos] nm
      by blast
    then show ?thesis using r by (rule list_all_update[rotated])
  qed
  show ?thesis
    unfolding b
    by (rule hashcat_parts_inv[where P = "list_all (\<lambda>(k, m). pf_nonneg (speed m))",
          OF enumerate_bound assms(2)]) (rule step)
qed

lemma decimal_numeral_whole:
  assumes "list_all is_digit ip" "ip \<noteq> []"
  shows "decimal_numeral ip"
proof -
  have tw: "takeWhile is_digit ip = ip"
    using assms(1) by (simp add: list_all_iff takeWhile_eq_all_conv)
  have dw: "dropWhile is_digit ip = []"
    using assms(1) by (simp add: list_all_iff)
  show ?thesis unfolding decimal_numeral_def tw dw using assms(2) by simp
qed

lemma decimal_numeral_frac:
  assumes "list_all is_digit ip" "ip \<noteq> []" "list_all is_digit fp" "fp \<noteq> []"
  shows "decimal_numeral (ip @ CHR ''.'' # fp)"
proof -
  have nd: "\<not> is_digit CHR ''.''" by (simp add: is_digit_def)
  have tw: "takeWhile is_digit (ip @ CHR ''.'' # fp) = ip"
    "dropWhile is_digit (ip @ CHR ''.'' # fp) = CHR ''.'' # fp"
    using assms(1) nd by (auto simp: list_all_iff takeWhile_append2 dropWhile_append2)
  show ?thesis unfolding decimal_numeral_def tw using assms by simp
qed

lemma decimal_value_nonneg: "0 \<le> decimal_value d"
  by (simp add: decimal_value_def)

lemma john_match_shape:
  assumes "john_match_at s = Some (g1, g0)"
  shows "\<exists>d. decimal_numeral d \<and> (g1 = d \<or> (\<exists>c\<in>set ''KMGkmg''. g1 = d @ [c]))"
proof -
  let ?d1 = "takeWhile is_digit s" and ?r1 = "dropWhile is_digit s"
  define frac where "frac = (case ?r1 of [] \<Rightarrow> []
                  | p # r \<Rightarrow> if p = CHR ''.'' \<and> takeWhile is_digit r \<noteq> []
                            then p # takeWhile is_digit r else [])"
  define suf where "suf = (case drop (length frac) ?r1 of [] \<Rightarrow> []
                 | c # r \<Rightarrow> if c \<in> set ''KMGkmg'' then [c] else [])"
  define ws where "ws = takeWhile is_space (drop (length suf) (drop (length frac) ?r1))"
  define r4 where "r4 = dropWhile is_space (drop (length suf) (drop (length frac) ?r1))"
  have eq: "john_match_at s =
     (if ?d1 = [] then None
      else (case r4 of
              a # b # c # r \<Rightarrow>
                if (a = CHR ''c'' \<or> a = CHR ''C'') \<and> b = CHR ''/'' \<and> (c = CHR ''s'' \<or> c = CHR ''S'')
                then Some (?d1 @ frac @ suf, ?d1 @ frac @ suf @ ws @ [a, b, c])
                else None
            | _ \<Rightarrow> None))"
    unfolding john_match_at_def Let_def frac_def suf_def ws_def r4_def by (rule refl)
  from assms have d1: "?d1 \<noteq> []"
    unfolding eq by (simp split: if_splits)
  from assms have g1: "g1 = ?d1 @ frac @ suf"
    unfolding eq by (simp split: if_splits list.splits)
  have dig: "list_all is_digit ?d1" by (auto simp: list_all_iff dest: set_takeWhileD)
  have fr: "frac = [] \<or> (\<exists>fp. frac = CHR ''.'' # fp \<and> list_all is_digit fp \<and> fp \<noteq> [])"
  proof (cases ?r1)
    case Nil
    show ?thesis unfolding frac_def Nil by simp
  next
    case (Cons p r)
    have "list_all is_digit (takeWhile is_digit r)"
      by (auto simp: list_all_iff dest: set_takeWhileD)
    then show ?thesis unfolding frac_def Cons by simp
  qed
  have dn: "decimal_numeral (?d1 @ frac)"
    using fr
  proof
    assume "frac = []"
    then show ?thesis using decimal_numeral_whole[OF dig d1] by simp
  next
    assume "\<exists>fp. frac = CHR ''.'' # fp \<and> list_all is_digit fp \<and> fp \<noteq> []"
    then obtain fp where "frac = CHR ''.'' # fp" "list_all is_digit fp" "fp \<noteq> []" by blast
    then show ?thesis using decimal_numeral_frac[OF dig d1, of fp] by simp
  qed
  have sf: "suf = [] \<or> (\<exists>c\<in>set ''KMGkmg''. suf = [c])"
  proof (cases "drop (length frac) ?r1")
    case Nil
    show ?thesis unfolding suf_def Nil by simp
  next
    case (Cons c r)
    show ?thesis
    proof (cases "c \<in> set ''KMGkmg''")
      case True
      then have "suf = [c]" unfolding suf_def Cons by simp
      with True show ?thesis by blast
    next
      case False
      then have "suf = []" unfolding suf_def Cons by simp
      then show ?thesis ..
    qed
  qed
  from sf show ?thesis
  proof
    assume "suf = []"
    then have "g1 = ?d1 @ frac" using g1 by simp
    with dn show ?thesis by blast
  next
    assume "\<exists>c\<in>set ''KMGkmg''. suf = [c]"
    then obtain c where "c \<in> set ''KMGkmg''" "suf = [c]" by blast
    then have "c \<in> set ''KMGkmg''" "g1 = (?d1 @ frac) @ [c]" using g1 by simp_all
    with dn show ?thesis by blast
  qed
qed

lemma john_search_shape:
  "john_search s = Some (g1, g0) \<Longrightarrow>
   \<exists>d. decimal_numeral d \<and> (g1 = d \<or> (\<exists>c\<in>set ''KMGkmg''. g1 = d @ [c]))"
proof (induction s)
  case Nil
  then show ?case by simp
next
  case (Cons c cs)
  show ?case
  proof (cases "john_match_at (c # cs)")
    case None
    with Cons show ?thesis by simp
  next
    case (Some m)
    with Cons.prems have "john_match_at (c # cs) = Some (g1, g0)" by simp
    then show ?thesis by (rule john_match_shape)
  qed
qed

lemma john_group_nonneg:
  assumes "decimal_numeral d" "g1 = d \<or> (\<exists>c\<in>set ''KMGkmg''. g1 = d @ [c])"
    "parse_john_speed g1 = Inr v"
  shows "pf_nonneg v"
  using assms(2)
proof
  assume "g1 = d"
  then have "v = to_double (decimal_value d)"
    using assms(3) parse_speed_bare[OF assms(1), of john_multipliers]
      decimal_shape(3)[OF assms(1)] digit_facts(8)
    by (auto simp: parse_john_speed_def)
  then show ?thesis by (simp add: decimal_value_nonneg to_double_nonneg)
next
  assume "\<exists>c\<in>set ''KMGkmg''. g1 = d @ [c]"
  then obtain c where c: "c \<in> set ''KMGkmg''" "g1 = d @ [c]" by blast
  show ?thesis
  proof (cases "c \<in> set ''KMG''")
    case True
    then obtain m where m: "map_of john_multipliers c = Some m" "0 < m"
      by (auto simp: john_multipliers_def)
    then have "v = pf_mult (to_double (decimal_value d)) (Fin m)"
      using assms(3) c parse_speed_suffix[OF assms(1) m(1)] by (simp add: parse_john_speed_def)
    then show ?thesis
      using m(2) by (simp only: pf_mult_pos to_double_nonneg decimal_value_nonneg)
  next
    case False
    with c have k: "c \<in> set ''kmg''" by auto
    then have "\<not> is_digit c" "c \<noteq> CHR ''.''" "\<not> float_space c" "c \<notin> fst ` set john_multipliers"
      by (auto simp: is_digit_def float_space_def john_multipliers_def)
    from parse_speed_junk[OF assms(1) this] have "v = Fin 0"
      using assms(3) c by (simp add: parse_john_speed_def)
    then show ?thesis by simp
  qed
qed

lemma john_line_nonneg:
  assumes "john_line a line = Inr b" "list_all (\<lambda>(k, m). pf_nonneg (speed m)) a"
  shows "list_all (\<lambda>(k, m). pf_nonneg (speed m)) b"
proof (cases "john_matches line")
  case False
  then show ?thesis using assms john_line_unmatched[of line a] by simp
next
  case True
  let ?parts = "py_split_on (CHR '':'') line"
  from True obtain g1 g0 where s: "john_search (py_strip (?parts ! 1)) = Some (g1, g0)"
    by (auto simp: john_matches_def)
  from True have two: "2 \<le> length ?parts" by (simp add: john_matches_def py_split_on_two)
  obtain v where v: "parse_john_speed g1 = Inr v"
    using parse_speed_total[of john_multipliers g1] by (auto simp: parse_john_speed_def)
  from john_search_shape[OF s] obtain d where "decimal_numeral d"
    "g1 = d \<or> (\<exists>c\<in>set ''KMGkmg''. g1 = d @ [c])" by blast
  then have nn: "pf_nonneg v" using v by (rule john_group_nonneg)
  have i0: "py_index ?parts 0 = Inr (hd ?parts)"
    by (rule py_index_0) (rule py_split_on_nonempty)
  have i1: "py_index ?parts 1 = Inr (?parts ! 1)"
    using two py_index_nat[of 1 ?parts] by simp
  have "b = AList.update (py_strip (hd ?parts)) \<lparr>speed = v, speed_formatted = g0\<rparr> a"
    using assms(1) True two s v
    by (simp add: john_line_def john_matches_def Let_def i0 i1)
  then show ?thesis using list_all_update[OF assms(2), of "\<lparr>speed = v, speed_formatted = g0\<rparr>"] nn
    by simp
qed

text \<open>
  C4, as stated: every numeric rate in the mappings returned by \<^verbatim>\<open>parse_hashcat_benchmark\<close>
  and \<^verbatim>\<open>parse_john_benchmark\<close> is non-negative. The hashcat parser hands the token before
  the unit token to \<^verbatim>\<open>float()\<close>, sign included: the text \<^verbatim>\<open>0 -5 H/s\<close> gives MD5 the rate
  -5.0.
\<close>

theorem C4_negative_hashcat_rate:
  "parse_hashcat_benchmark ''0 -5 H/s'' =
     Inr [(''MD5'', \<lparr>speed = Fin (- 5), speed_formatted = ''-5 H/s''\<rparr>)] \<and>
   \<not> pf_nonneg (Fin (- 5))"
  by (simp add: hashcat_defs char_class_defs float_defs speed_defs)
    (simp add: double_defs)

text \<open>
  C4, amended: every numeric rate in the mapping returned by \<^verbatim>\<open>parse_john_benchmark\<close> is
  non-negative, for every input text; and every numeric rate in the mapping returned by
  \<^verbatim>\<open>parse_hashcat_benchmark\<close> is non-negative for every input text in which no token that
  stands right before a token containing \<^verbatim>\<open>H/s\<close> begins with a minus sign or contains
  \<^verbatim>\<open>nan\<close> (in any case).
\<close>

theorem C4_rates_nonnegative:
  "(parse_john_benchmark output = Inr r \<longrightarrow> list_all (\<lambda>(k, m). pf_nonneg (speed m)) r) \<and>
   (parse_hashcat_benchmark output = Inr r' \<and>
    list_all (\<lambda>line. list_all (\<lambda>t. \<not> minus_or_nan t) (speed_tokens (py_split_ws line)))
      (py_split_on (CHR 0x0A) output)
    \<longrightarrow> list_all (\<lambda>(k, m). pf_nonneg (speed m)) r')"
proof (intro conjI impI)
  assume "parse_john_benchmark output = Inr r"
  then have "for_lines john_line [] (py_split_on (CHR 0x0A) output) = Inr r"
    by (simp add: parse_john_benchmark_def)
  then show "list_all (\<lambda>(k, m). pf_nonneg (speed m)) r"
    by (rule for_lines_inv) (simp, rule john_line_nonneg)
next
  assume a: "parse_hashcat_benchmark output = Inr r' \<and>
    list_all (\<lambda>line. list_all (\<lambda>t. \<not> minus_or_nan t) (speed_tokens (py_split_ws line)))
      (py_split_on (CHR 0x0A) output)"
  then have f: "for_lines hashcat_line [] (py_split_on (CHR 0x0A) output) = Inr r'"
    by (simp add: parse_hashcat_benchmark_def)
  show "list_all (\<lambda>(k, m). pf_nonneg (speed m)) r'"
  proof (rule for_lines_inv[OF f])
    show "list_all (\<lambda>(k, m). pf_nonneg (speed m)) []" by simp
  next
    fix l x y
    assume l: "l \<in> set (py_split_on (CHR 0x0A) output)"
      and x: "list_all (\<lambda>(k, m). pf_nonneg (speed m)) x" and y: "hashcat_line x l = Inr y"
    from a l have "list_all (\<lambda>t. \<not> minus_or_nan t) (speed_tokens (py_split_ws l))"
      by (simp add: list_all_iff)
    with y x show "list_all (\<lambda>(k, m). pf_nonneg (speed m)) y" by (rule hashcat_line_nonneg)
  qed
qed

text \<open>The amended C4 at a line that both parsers read, with a lone minus sign among its
  tokens that is not a speed token.\<close>

theorem C4_rates_nonnegative_witness:
  "parse_john_benchmark ''0 - 12.4 MH/s : 7K c/s'' =
     Inr [(''0 - 12.4 MH/s'', \<lparr>speed = Fin 7000, speed_formatted = ''7K c/s''\<rparr>)] \<and>
   list_all (\<lambda>(k, m). pf_nonneg (speed m))
     [(''0 - 12.4 MH/s'', \<lparr>speed = Fin 7000, speed_formatted = ''7K c/s''\<rparr>)] \<and>
   parse_hashcat_benchmark ''0 - 12.4 MH/s : 7K c/s'' =
     Inr [(''MD5'', \<lparr>speed = Fin (6980579422424269 / 562949953421312),
                     speed_formatted = ''12.4 MH/s''\<rparr>)] \<and>
   list_all (\<lambda>line. list_all (\<lambda>t. \<not> minus_or_nan t) (speed_tokens (py_split_ws line)))
     (py_split_on (CHR 0x0A) ''0 - 12.4 MH/s : 7K c/s'') \<and>
   list_all (\<lambda>(k, m). pf_nonneg (speed m))
     [(''MD5'', \<lparr>speed = Fin (6980579422424269 / 562949953421312),
              speed_formatted = ''12.4 MH/s''\<rparr>)]"
proof -
  have j: "parse_john_benchmark ''0 - 12.4 MH/s : 7K c/s'' =
     Inr [(''0 - 12.4 MH/s'', \<lparr>speed = Fin 7000, speed_formatted = ''7K c/s''\<rparr>)]"
    by (simp add: john_defs char_class_defs float_defs speed_defs)
      (simp add: double_defs)
  have h: "parse_hashcat_benchmark ''0 - 12.4 MH/s : 7K c/s'' =
     Inr [(''MD5'', \<lparr>speed = Fin (6980579422424269 / 562949953421312),
              speed_formatted = ''12.4 MH/s''\<rparr>)]"
    by (simp add: hashcat_defs char_class_defs float_defs speed_defs)
      (simp add: double_defs)
  have sp: "py_split_ws ''0 - 12.4 MH/s : 7K c/s'' =
      [''0'', ''-'', ''12.4'', ''MH/s'', '':'', ''7K'', ''c/s'']"
    by (simp add: py_split_ws_def is_space_def)
  have st: "speed_tokens [''0'', ''-'', ''12.4'', ''MH/s'', '':'', ''7K'', ''c/s''] = [''12.4'']"
    by (simp add: speed_tokens_def unit_token_def upt_rec)
  have mn: "\<not> minus_or_nan ''12.4''"
    by (simp add: minus_or_nan_def py_lower_def lower_char_def)
  have t: "list_all (\<lambda>line. list_all (\<lambda>t. \<not> minus_or_nan t) (speed_tokens (py_split_ws line)))
     (py_split_on (CHR 0x0A) ''0 - 12.4 MH/s : 7K c/s'')"
    by (simp add: sp st mn)
  note c4 = C4_rates_nonnegative[of "''0 - 12.4 MH/s : 7K c/s''"
        "[(''0 - 12.4 MH/s'', \<lparr>speed = Fin 7000, speed_formatted = ''7K c/s''\<rparr>)]"
        "[(''MD5'', \<lparr>speed = Fin (6980579422424269 / 562949953421312),
              speed_formatted = ''12.4 MH/s''\<rparr>)]"]
  have x: "list_all (\<lambda>(k, m). pf_nonneg (speed m))
     [(''0 - 12.4 MH/s'', \<lparr>speed = Fin 7000, speed_formatted = ''7K c/s''\<rparr>)]"
    by (rule c4[THEN conjunct1, THEN mp, OF j])
  have y: "list_all (\<lambda>(k, m). pf_nonneg (speed m))
     [(''MD5'', \<lparr>speed = Fin (6980579422424269 / 562949953421312),
              speed_formatted = ''12.4 MH/s''\<rparr>)]"
    by (rule c4[THEN conjunct2, THEN mp, OF conjI[OF h t]])
  show ?thesis
    by (intro conjI j x h t y)
qed

section \<open>The report when no tool is available\<close>

text \<open>
  C8. When \<^verbatim>\<open>check_tool_availability\<close> reports both tools unavailable, \<^verbatim>\<open>generate_report\<close>
  returns a report whose \<^verbatim>\<open>benchmarks\<close> and \<^verbatim>\<open>performance_tests\<close> mappings are empty and
  whose metadata holds the object's timestamp and system information and both
  availability flags set to false; it touches no file. The system information of a
  freshly built object always holds the host's timestamp and platform.
\<close>

theorem C8_report_without_tools:
  "(check_tool_availability h = (False, False)
    \<longrightarrow> generate_report h self fs =
         (Inr \<lparr>metadata =
                 \<lparr>timestamp = self_timestamp self,
                    system_info = self_system_info self,
                    tools_available = \<lparr>hashcat = False, john_the_ripper = False\<rparr>\<rparr>,
               benchmarks = [], performance_tests = []\<rparr>,
          fs)) \<and>
   self_timestamp (init h) = clock_stamp h \<and>
   info_timestamp (self_system_info (init h)) = clock_iso h \<and>
   platform (self_system_info (init h)) = sys_platform h"
proof -
  have "info_timestamp (gather_system_info h) = clock_iso h \<and>
        platform (gather_system_info h) = sys_platform h"
    by (auto simp: gather_system_info_def blank_info_def cpu_step_def mem_step_def gpu_step_def
        split: sum.splits file_outcome.splits option.splits proc_outcome.splits)
  then show ?thesis
    by (simp add: generate_report_def init_def)
qed

text \<open>C8 on a host where starting any process raises.\<close>

theorem C8_report_without_tools_witness:
  "check_tool_availability bare_host = (False, False) \<and>
   generate_report bare_host (init bare_host) Map.empty =
     (Inr \<lparr>metadata =
             \<lparr>timestamp = ''20240101_000000'',
                system_info =
                  \<lparr>info_timestamp = ''2024-01-01T00:00:00'', platform = ''linux'',
                     cpu = None, memory_gb = None, gpu = Some ''Not available''\<rparr>,
                tools_available = \<lparr>hashcat = False, john_the_ripper = False\<rparr>\<rparr>,
           benchmarks = [], performance_tests = []\<rparr>,
      Map.empty)"
proof -
  have a: "check_tool_availability bare_host = (False, False)"
    by (simp add: check_tool_availability_def tool_available_def bare_host_def)
  have t: "self_timestamp (init bare_host) = ''20240101_000000''"
    by (simp add: init_def bare_host_def)
  have s: "self_system_info (init bare_host) =
      \<lparr>info_timestamp = ''2024-01-01T00:00:00'', platform = ''linux'',
         cpu = None, memory_gb = None, gpu = Some ''Not available''\<rparr>"
    by (simp add: init_def info_defs bare_host_def)
  show ?thesis
    using C8_report_without_tools[of bare_host "init bare_host" Map.empty, THEN conjunct1, THEN mp, OF a]
    by (simp add: a t s)
qed

section \<open>Fixture files of the attack runner\<close>







text \<open>
  C6, as stated: when writing a fixture file fails, only that tool's scenario is
  aborted, the exception stays inside the component and the run still completes. The
  two writes stand before the first \<^verbatim>\<open>try\<close> of \<^verbatim>\<open>run_attack_performance_test\<close> and serve
  both scenarios: on a host where both tools answer and nothing can be written, the
  exception leaves \<^verbatim>\<open>run_attack_performance_test\<close> and \<^verbatim>\<open>generate_report\<close>, and no report is
  returned.
\<close>

theorem C6_report_aborted:
  "check_tool_availability readonly_host = (True, True) \<and>
   fst (run_attack_performance_test readonly_host ''20240101_000000'' Map.empty) = Inl OSError \<and>
   fst (generate_report readonly_host (init readonly_host) Map.empty) = Inl OSError"
  by (simp add: runner_defs report_defs host_defs)

text \<open>
  C6, amended: if writing a fixture file (hash file or wordlist file) fails in
  \<^verbatim>\<open>run_attack_performance_test\<close>, the exception propagates out of it, neither attack
  scenario is recorded, and, when at least one tool is available so that
  \<^verbatim>\<open>generate_report\<close> calls it, the exception propagates out of \<^verbatim>\<open>generate_report\<close> too:
  no report is returned.
\<close>

theorem C6_fixture_write_failure_propagates:
  "(tool_available h ''hashcat'' \<or> tool_available h ''john'') \<and>
   (\<not> can_write h (hash_file (self_timestamp self)) \<or>
    \<not> can_write h (wordlist_file (self_timestamp self)))
   \<longrightarrow> fst (run_attack_performance_test h (self_timestamp self) fs) = Inl OSError \<and>
       fst (generate_report h self fs) = Inl OSError"
proof
  assume a: "(tool_available h ''hashcat'' \<or> tool_available h ''john'') \<and>
   (\<not> can_write h (hash_file (self_timestamp self)) \<or>
    \<not> can_write h (wordlist_file (self_timestamp self)))"
  then have run: "fst (run_attack_performance_test h (self_timestamp self) fs) = Inl OSError"
    by (auto simp: run_attack_performance_test_def write_file_def)
  obtain r fs' where rf: "run_attack_performance_test h (self_timestamp self) fs = (r, fs')"
    by (cases "run_attack_performance_test h (self_timestamp self) fs")
  with run have "r = Inl OSError" by simp
  with rf a have "fst (generate_report h self fs) = Inl OSError"
    by (auto simp: generate_report_def check_tool_availability_def)
  with run show "fst (run_attack_performance_test h (self_timestamp self) fs) = Inl OSError \<and>
       fst (generate_report h self fs) = Inl OSError" by simp
qed

text \<open>The amended C6 on a host where the hash file can be written and the wordlist file
  cannot.\<close>

theorem C6_fixture_write_failure_propagates_witness:
  "tool_available wordlist_unwritable_host ''hashcat'' \<and>
   \<not> can_write wordlist_unwritable_host (wordlist_file (self_timestamp (init wordlist_unwritable_host))) \<and>
   fst (run_attack_performance_test wordlist_unwritable_host
          (self_timestamp (init wordlist_unwritable_host)) Map.empty) = Inl OSError \<and>
   fst (generate_report wordlist_unwritable_host (init wordlist_unwritable_host) Map.empty) =
     Inl OSError"
proof -
  have a: "tool_available wordlist_unwritable_host ''hashcat''"
    by (simp add: tool_available_def host_defs)
  have b: "\<not> can_write wordlist_unwritable_host
      (wordlist_file (self_timestamp (init wordlist_unwritable_host)))"
    by (simp add: init_def wordlist_file_def host_defs)
  show ?thesis
    using a b
      C6_fixture_write_failure_propagates[of wordlist_unwritable_host
        "init wordlist_unwritable_host" Map.empty]
    by blast
qed

section \<open>Host facts\<close>










end
